theory Spec2Isabelle
  imports Complex_Main
begin

section \<open>Model of the particle simulation (public/scripts/imfs.js, and its earlier version in highlow.js)\<close>

text \<open>
  JavaScript numbers are modelled as \<^typ>\<open>real\<close>: rounding, NaN and the infinities of
  IEEE-754 doubles are outside the model. A two-element array \<open>[x, y]\<close> is a pair.
  \<open>Math.hypot(x, y)\<close> is \<open>sqrt (x * x + y * y)\<close>.
\<close>

subsection \<open>Utilities\<close>

type_synonym vec = "real \<times> real"

definition clamp :: "real \<Rightarrow> real \<Rightarrow> real \<Rightarrow> real" where
  "clamp v mn mx = max mn (min mx v)"

text \<open>\<open>x || d\<close> on a number: \<open>d\<close> when \<open>x\<close> is 0, else \<open>x\<close>.\<close>

definition jsor :: "real \<Rightarrow> real \<Rightarrow> real" where
  "jsor x d = (if x = 0 then d else x)"

text \<open>\<open>x || d\<close> on a property that may be undefined.\<close>

definition jsor_opt :: "real option \<Rightarrow> real \<Rightarrow> real" where
  "jsor_opt x d = (case x of None \<Rightarrow> d | Some v \<Rightarrow> jsor v d)"

definition vAdd :: "vec \<Rightarrow> vec \<Rightarrow> vec" where
  "vAdd a b = (fst a + fst b, snd a + snd b)"

definition vSub :: "vec \<Rightarrow> vec \<Rightarrow> vec" where
  "vSub a b = (fst a - fst b, snd a - snd b)"

definition vMul :: "vec \<Rightarrow> real \<Rightarrow> vec" where
  "vMul a k = (fst a * k, snd a * k)"

definition hypot :: "real \<Rightarrow> real \<Rightarrow> real" where
  "hypot x y = sqrt (x * x + y * y)"

definition vLen :: "vec \<Rightarrow> real" where
  "vLen a = hypot (fst a) (snd a)"

definition vNorm :: "vec \<Rightarrow> vec" where
  "vNorm a = (let L = vLen a in
     if L > 0.000000000001 then (fst a / L, snd a / L) else (0, 0))"

text \<open>Not in the source: the inner product, used to state which way a force points.\<close>

definition dot :: "vec \<Rightarrow> vec \<Rightarrow> real" where
  "dot a b = fst a * fst b + snd a * snd b"

text \<open>Not in the source: the negated vector, used to state Newton's third law.\<close>

definition vNeg :: "vec \<Rightarrow> vec" where
  "vNeg a = (- fst a, - snd a)"

subsection \<open>Scenario parameters and particles\<close>

text \<open>
  \<open>this.params\<close>: the fields read by the force model and the step. \<open>cohLJ\<close>, \<open>cohHB\<close> and
  \<open>cohDP\<close> are absent from \<open>scenarioDefaults\<close> and only set by \<open>applyIMFCoeffsFor\<close>, hence
  optional.
\<close>

record scenario =
  sigma :: real
  viscosity :: real
  hbStrength :: real
  dipole :: real
  kT :: real
  cohLJ :: "real option"
  cohHB :: "real option"
  cohDP :: "real option"

datatype phase = Liquid | Gas

text \<open>
  A particle as \<open>makeParticle\<close> builds it, with the \<open>acc\<close> field that \<open>computeForces\<close>
  adds. The fields \<open>kind\<close>, \<open>angle\<close> and \<open>angVel\<close> are never read by the simulation step
  and are left out.
\<close>

record particle =
  pos :: vec
  vel :: vec
  acc :: vec
  mass :: real
  radius :: real
  state :: phase
  gasUntil :: real
  localNeighbors :: nat
  thermalEnergy :: real
  lastStateChange :: real

text \<open>\<open>makeParticle(x, y, kind)\<close>, with the randomly drawn velocity as an argument.\<close>

definition makeParticle :: "real \<Rightarrow> real \<Rightarrow> vec \<Rightarrow> particle" where
  "makeParticle x y v =
    \<lparr> pos = (x, y), vel = v, acc = (0, 0), mass = 1, radius = 3, state = Liquid,
      gasUntil = 0, localNeighbors = 0, thermalEnergy = 0, lastStateChange = 0 \<rparr>"

subsection \<open>Spatial index (class NeighborGrid)\<close>

text \<open>
  The cells hold references to the particle objects of \<open>this.particles\<close>; a reference is
  modelled by the particle's index in that array, so that a callback sees the particle's
  current fields. A cell that was never written is \<open>undefined\<close> (\<open>None\<close>).
\<close>

record neighbor_grid =
  gwidth :: real
  gheight :: real
  cellSize :: real
  cols :: int
  rows :: int
  cells :: "nat list option list"

definition NeighborGrid :: "real \<Rightarrow> real \<Rightarrow> real \<Rightarrow> neighbor_grid" where
  "NeighborGrid w h cs =
    (let cellSize = max 8 cs;
         cols = max 1 \<lfloor>w / cellSize\<rfloor>;
         rows = max 1 \<lfloor>h / cellSize\<rfloor>
     in \<lparr> gwidth = w, gheight = h, cellSize = cellSize, cols = cols, rows = rows,
          cells = replicate (nat (cols * rows)) None \<rparr>)"

definition clear :: "neighbor_grid \<Rightarrow> neighbor_grid" where
  "clear g = g\<lparr> cells := map (\<lambda>c. None) (cells g) \<rparr>"

definition cellIndex :: "neighbor_grid \<Rightarrow> real \<Rightarrow> real \<Rightarrow> int" where
  "cellIndex g x y =
    (let cx = max 0 (min (cols g - 1) \<lfloor>x / cellSize g\<rfloor>);
         cy = max 0 (min (rows g - 1) \<lfloor>y / cellSize g\<rfloor>)
     in cy * cols g + cx)"

text \<open>
  \<open>insert(particle)\<close>, for the particle with index \<open>i\<close>. The index computed by \<open>cellIndex\<close>
  lies inside the array for a grid built by the constructor (\<open>cols\<close> and \<open>rows\<close> are at
  least 1), so the write never extends the array.
\<close>

definition insert :: "neighbor_grid \<Rightarrow> nat \<Rightarrow> particle \<Rightarrow> neighbor_grid" where
  "insert g i p =
    (let idx = nat (cellIndex g (fst (pos p)) (snd (pos p)));
         cell = (case cells g ! idx of None \<Rightarrow> [] | Some c \<Rightarrow> c)
     in g\<lparr> cells := (cells g)[idx := Some (cell @ [i])] \<rparr>)"

text \<open>
  \<open>forNeighbors(x, y, radius, fn)\<close>: the particles that \<open>fn\<close> is called with, in the order of
  the calls. No callback in the source writes to the grid, so the visit is this list
  followed by the calls.
\<close>

definition forNeighbors :: "neighbor_grid \<Rightarrow> real \<Rightarrow> real \<Rightarrow> real \<Rightarrow> nat list" where
  "forNeighbors g x y rad =
    (let r = rad;
         minCx = \<lfloor>(x - r) / cellSize g\<rfloor>;
         maxCx = \<lfloor>(x + r) / cellSize g\<rfloor>;
         minCy = \<lfloor>(y - r) / cellSize g\<rfloor>;
         maxCy = \<lfloor>(y + r) / cellSize g\<rfloor>
     in concat (map (\<lambda>cy. concat (map (\<lambda>cx.
          if cx < 0 \<or> cx \<ge> cols g \<or> cy < 0 \<or> cy \<ge> rows g then []
          else (case cells g ! nat (cy * cols g + cx) of None \<Rightarrow> [] | Some cell \<Rightarrow> cell))
          [minCx..maxCx])) [minCy..maxCy]))"

text \<open>
  The rebuild that opens \<open>computeForces\<close> and \<open>resolveCollisions\<close>: \<open>this.grid.clear()\<close>, then
  \<open>insert\<close> for every particle in array order.
\<close>

definition rebuild :: "neighbor_grid \<Rightarrow> particle list \<Rightarrow> neighbor_grid" where
  "rebuild g ps = fold (\<lambda>i g'. insert g' i (ps ! i)) [0..<length ps] (clear g)"

subsection \<open>Force model\<close>

definition ljForce :: "scenario \<Rightarrow> vec \<Rightarrow> vec" where
  "ljForce P rVec =
    (let r = vLen rVec + 0.000000001;
         sigma = sigma P;
         epsilon = 0.3 + 0.5 * jsor (viscosity P) 0;
         sr = sigma / r;
         sr2 = sr * sr;
         sr6 = sr2 * sr2 * sr2;
         sr12 = sr6 * sr6;
         mag = 24 * epsilon * (2 * sr12 - sr6) * (1 / r);
         rCut = 2.5 * sigma;
         mag = (if r > rCut then 0 else mag);
         mag = clamp mag (- 60) 60
     in vMul (vNorm rVec) (- mag))"

definition hbForce :: "scenario \<Rightarrow> vec \<Rightarrow> vec" where
  "hbForce P rVec =
    (let r = vLen rVec + 0.000000001;
         E = hbStrength P
     in if E \<le> 0 then (0, 0)
        else let rCut = 1.8 * sigma P
             in if r > rCut then (0, 0)
                else let align = 1;
                         f = - E * align * max 0 (1 - r / rCut)
                     in vMul (vNorm rVec) f)"

definition dipoleForce :: "scenario \<Rightarrow> vec \<Rightarrow> vec" where
  "dipoleForce P rVec =
    (let r = vLen rVec + 0.000000001;
         D = dipole P
     in if D \<le> 0 then (0, 0)
        else let rCut = 2.2 * sigma P
             in if r > rCut then (0, 0)
                else let f = - D * (1 / (r * r)) * max 0.1 (1 - r / rCut)
                     in vMul (vNorm rVec) f)"

text \<open>
  The force that the neighbour callback of \<open>computeForces\<close> adds to \<open>a.acc\<close> for one
  neighbour \<open>b\<close>, as a function of the two phases and of \<open>rVec = b.pos - a.pos\<close>.
\<close>

definition pairForce :: "scenario \<Rightarrow> phase \<Rightarrow> phase \<Rightarrow> vec \<Rightarrow> vec" where
  "pairForce P sa sb rVec =
    (let bothLiquid = (sa = Liquid \<and> sb = Liquid);
         gasScale = (if sa = Gas \<or> sb = Gas then 0.2 else 1.0);
         liquidCohesionBoost = (if bothLiquid then 1.3 else 1.0);
         fLJ = vMul (ljForce P rVec) (jsor_opt (cohLJ P) 1 * liquidCohesionBoost);
         fHB = vMul (hbForce P rVec) (jsor_opt (cohHB P) 1 * liquidCohesionBoost);
         fDP = vMul (dipoleForce P rVec) (jsor_opt (cohDP P) 1)
     in vAdd (vAdd (vMul fLJ gasScale) (vMul fHB gasScale)) (vMul fDP gasScale))"

text \<open>The honey scenario of \<open>scenarioDefaults\<close> with \<open>kT = 1\<close>, as the constructor sets it.\<close>

definition honey :: scenario where
  "honey = \<lparr> sigma = 10, viscosity = 2.0, hbStrength = 1.8, dipole = 0.0, kT = 1.0,
             cohLJ = None, cohHB = None, cohDP = None \<rparr>"

text \<open>The DMSO scenario of \<open>scenarioDefaults\<close>.\<close>

definition dmso :: scenario where
  "dmso = \<lparr> sigma = 10, viscosity = 1.2, hbStrength = 0.0, dipole = 1.6, kT = 1.0,
            cohLJ = None, cohHB = None, cohDP = None \<rparr>"

subsection \<open>The simulation object and its environment\<close>

text \<open>
  The fields of \<open>IMFSim\<close> that \<open>step\<close> reads or writes. The canvas, the drawing state and
  the frame bookkeeping are left out.
\<close>

record sim =
  width :: real
  height :: real
  params :: scenario
  particles :: "particle list"
  grid :: neighbor_grid
  gravityOn :: bool
  heatingOn :: bool
  heatAccel :: real
  lastThermoMs :: real

text \<open>
  What the step reads from outside: the successive results of \<open>Math.random()\<close>, of
  \<open>randNorm()\<close> and of \<open>performance.now()\<close>, each as a tape with a read position. Any
  tape is allowed, so a property proved for all environments holds for whatever the
  browser returns. \<open>randNorm\<close> is modelled by its result: its Box-Muller body, whose two
  loops redraw while \<open>Math.random()\<close> returns exactly 0, is not unfolded.
\<close>

record env =
  randomTape :: "nat \<Rightarrow> real"
  randomPos :: nat
  normTape :: "nat \<Rightarrow> real"
  normPos :: nat
  nowTape :: "nat \<Rightarrow> real"
  nowPos :: nat

definition mathRandom :: "env \<Rightarrow> real \<times> env" where
  "mathRandom e = (randomTape e (randomPos e), e\<lparr> randomPos := Suc (randomPos e) \<rparr>)"

definition randNorm :: "env \<Rightarrow> real \<times> env" where
  "randNorm e = (normTape e (normPos e), e\<lparr> normPos := Suc (normPos e) \<rparr>)"

definition performanceNow :: "env \<Rightarrow> real \<times> env" where
  "performanceNow e = (nowTape e (nowPos e), e\<lparr> nowPos := Suc (nowPos e) \<rparr>)"

text \<open>
  A loop \<open>for (i = 0; i < particles.length; i++)\<close> whose body updates particle \<open>i\<close> alone and
  may read the environment: the particles are updated in array order and the environment
  is passed along.
\<close>

fun forEachEnv :: "(particle \<Rightarrow> env \<Rightarrow> particle \<times> env) \<Rightarrow> particle list \<Rightarrow> env
    \<Rightarrow> particle list \<times> env" where
  "forEachEnv f [] e = ([], e)"
| "forEachEnv f (p # ps) e =
    (let (p', e1) = f p e;
         (ps', e2) = forEachEnv f ps e1
     in (p' # ps', e2))"

subsection \<open>Walls\<close>

definition handleWalls :: "real \<Rightarrow> real \<Rightarrow> particle \<Rightarrow> particle" where
  "handleWalls w h p =
    (let r = jsor (radius p) 3;
         e = 0.2;
         fx = 0.98;
         p = (if fst (pos p) < r
              then p\<lparr> pos := (r, snd (pos p)), vel := (- fst (vel p) * e, snd (vel p)) \<rparr>
              else p);
         p = (if fst (pos p) > w - r
              then p\<lparr> pos := (w - r, snd (pos p)), vel := (- fst (vel p) * e, snd (vel p)) \<rparr>
              else p);
         p = (if snd (pos p) < r
              then p\<lparr> pos := (fst (pos p), r), vel := (fst (vel p) * fx, - snd (vel p) * e) \<rparr>
              else p);
         p = (if snd (pos p) > h - r
              then p\<lparr> pos := (fst (pos p), h - r), vel := (fst (vel p) * fx, - snd (vel p) * e) \<rparr>
              else p)
     in p)"

text \<open>
  \<open>wrap(p)\<close> of this version: its body is the comment "disabled; using wall collisions
  instead", and nothing calls it.
\<close>

definition wrap :: "particle \<Rightarrow> particle" where
  "wrap p = p"

subsection \<open>Collision resolver\<close>

text \<open>
  The callback of \<open>resolveCollisions\<close> mutates the two particle objects \<open>a\<close> and \<open>b\<close> block
  after block. Each block is a function on the pair \<open>(a, b)\<close>; \<open>nx\<close>, \<open>ny\<close> is the contact
  normal and \<open>h\<close> is \<open>this.height\<close>.
\<close>

text \<open>Position correction, with the shock propagation against the floor.\<close>

definition positionCorrection :: "real \<Rightarrow> real \<Rightarrow> real \<Rightarrow> real \<Rightarrow> particle \<times> particle
    \<Rightarrow> particle \<times> particle" where
  "positionCorrection h nx ny overlap ab =
    (let a = fst ab;
         b = snd ab;
         invMa = 1 / jsor (mass a) 1;
         invMb = 1 / jsor (mass b) 1;
         invSum = invMa + invMb;
         moveA = overlap * (invMa / max 0.000000001 invSum);
         moveB = overlap * (invMb / max 0.000000001 invSum);
         rA = jsor (radius a) 3;
         rB = jsor (radius b) 3;
         groundedA = (snd (pos a) \<ge> h - rA - 0.6);
         groundedB = (snd (pos b) \<ge> h - rB - 0.6);
         (moveA, moveB) =
           (if \<not> groundedA \<and> groundedB \<and> ny > 0 then (overlap, 0) else (moveA, moveB));
         (moveA, moveB) =
           (if groundedA \<and> \<not> groundedB \<and> ny < 0 then (0, overlap) else (moveA, moveB))
     in (a\<lparr> pos := (fst (pos a) - nx * moveA, snd (pos a) - ny * moveA) \<rparr>,
         b\<lparr> pos := (fst (pos b) + nx * moveB, snd (pos b) + ny * moveB) \<rparr>))"

text \<open>The safety check after the position correction.\<close>

definition safetyCorrection :: "real \<Rightarrow> particle \<times> particle \<Rightarrow> particle \<times> particle" where
  "safetyCorrection minDist ab =
    (let a = fst ab;
         b = snd ab;
         dx2 = fst (pos b) - fst (pos a);
         dy2 = snd (pos b) - snd (pos a);
         dist2 = jsor (hypot dx2 dy2) 0.000000001
     in if dist2 < minDist * 0.99
        then let overlap2 = minDist - dist2;
                 nx2 = dx2 / dist2;
                 ny2 = dy2 / dist2
             in (a\<lparr> pos := (fst (pos a) - nx2 * overlap2 * 0.5,
                              snd (pos a) - ny2 * overlap2 * 0.5) \<rparr>,
                 b\<lparr> pos := (fst (pos b) + nx2 * overlap2 * 0.5,
                              snd (pos b) + ny2 * overlap2 * 0.5) \<rparr>)
        else (a, b))"

text \<open>The velocity impulse \<open>j\<close> along the normal.\<close>

definition normalImpulse :: "real \<Rightarrow> real \<Rightarrow> real \<Rightarrow> particle \<times> particle
    \<Rightarrow> particle \<times> particle" where
  "normalImpulse j nx ny ab =
    (let a = fst ab;
         b = snd ab;
         jx = j * nx;
         jy = j * ny
     in (a\<lparr> vel := (fst (vel a) - jx / jsor (mass a) 1, snd (vel a) - jy / jsor (mass a) 1) \<rparr>,
         b\<lparr> vel := (fst (vel b) + jx / jsor (mass b) 1, snd (vel b) + jy / jsor (mass b) 1) \<rparr>))"

text \<open>The friction impulse along the tangent.\<close>

definition frictionImpulse :: "real \<Rightarrow> real \<Rightarrow> real \<Rightarrow> real \<Rightarrow> particle \<times> particle
    \<Rightarrow> particle \<times> particle" where
  "frictionImpulse mu j nx ny ab =
    (let a = fst ab;
         b = snd ab;
         rvx2 = fst (vel b) - fst (vel a);
         rvy2 = snd (vel b) - snd (vel a);
         tx = rvx2 - (rvx2 * nx + rvy2 * ny) * nx;
         ty = rvy2 - (rvx2 * nx + rvy2 * ny) * ny;
         tl = hypot tx ty
     in if tl > 0.000001
        then let tx = tx / tl;
                 ty = ty / tl;
                 jt = - mu * \<bar>j\<bar>;
                 jtx = jt * tx;
                 jty = jt * ty
             in (a\<lparr> vel := (fst (vel a) - jtx / jsor (mass a) 1,
                              snd (vel a) - jty / jsor (mass a) 1) \<rparr>,
                 b\<lparr> vel := (fst (vel b) + jtx / jsor (mass b) 1,
                              snd (vel b) + jty / jsor (mass b) 1) \<rparr>)
        else (a, b))"

text \<open>The thermal conduction: exchange of kinetic energy after the collision.\<close>

definition thermalConduction :: "particle \<times> particle \<Rightarrow> particle \<times> particle" where
  "thermalConduction ab =
    (let a = fst ab;
         b = snd ab;
         ma = jsor (mass a) 1;
         mb = jsor (mass b) 1;
         keA = 0.5 * ma * (fst (vel a) * fst (vel a) + snd (vel a) * snd (vel a));
         keB = 0.5 * mb * (fst (vel b) * fst (vel b) + snd (vel b) * snd (vel b));
         keTotal = keA + keB;
         transferCoeff = 0.15;
         keDiff = keA - keB;
         dE = transferCoeff * keDiff
     in if \<bar>dE\<bar> > 0.1 \<and> keTotal > 0.5
        then let newKeA = max 0.5 (keA - dE);
                 newKeB = max 0.5 (keB + dE);
                 vMagA = hypot (fst (vel a)) (snd (vel a));
                 vMagB = hypot (fst (vel b)) (snd (vel b))
             in if vMagA > 0.000001 \<and> vMagB > 0.000001
                then let scaleA = sqrt ((2 * newKeA) / (ma * vMagA * vMagA));
                         scaleB = sqrt ((2 * newKeB) / (mb * vMagB * vMagB))
                     in (a\<lparr> vel := (fst (vel a) * scaleA, snd (vel a) * scaleA) \<rparr>,
                         b\<lparr> vel := (fst (vel b) * scaleB, snd (vel b) * scaleB) \<rparr>)
                else (a, b)
        else (a, b))"

text \<open>The block \<open>if (vn < 0) { ... }\<close>: the three blocks above, in the source's order.\<close>

definition collisionImpulse :: "real \<Rightarrow> real \<Rightarrow> real \<Rightarrow> particle \<times> particle
    \<Rightarrow> particle \<times> particle" where
  "collisionImpulse nx ny vn ab =
    (let e = 0.2;
         mu = 0.3;
         j = (- (1 + e) * vn) / (1 / jsor (mass (fst ab)) 1 + 1 / jsor (mass (snd ab)) 1);
         ab = normalImpulse j nx ny ab;
         ab = frictionImpulse mu j nx ny ab
     in thermalConduction ab)"

text \<open>
  The callback of \<open>resolveCollisions\<close> from \<open>let dx = b.pos[0] - ax\<close> on, for the particles
  with indices \<open>i\<close> (\<open>a\<close>) and \<open>j\<close> (\<open>b\<close>), \<open>i \<noteq> j\<close>. \<open>ax\<close> and \<open>ay\<close> are the coordinates of
  \<open>a\<close> read before the neighbour loop.
\<close>

definition collidePair :: "real \<Rightarrow> real \<Rightarrow> real \<Rightarrow> nat \<Rightarrow> nat \<Rightarrow> particle list
    \<Rightarrow> particle list" where
  "collidePair h ax ay i j ps =
    (let a = ps ! i;
         b = ps ! j;
         dx = fst (pos b) - ax;
         dy = snd (pos b) - ay;
         dist = jsor (hypot dx dy) 0.000000001;
         minDist = jsor (radius a) 3 + jsor (radius b) 3
     in if dist < minDist
        then let nx = dx / dist;
                 ny = dy / dist;
                 overlap = minDist - dist;
                 ab = positionCorrection h nx ny overlap (a, b);
                 ab = safetyCorrection minDist ab;
                 rvx = fst (vel (snd ab)) - fst (vel (fst ab));
                 rvy = snd (vel (snd ab)) - snd (vel (fst ab));
                 vn = rvx * nx + rvy * ny;
                 ab = (if vn < 0 then collisionImpulse nx ny vn ab else ab)
             in ps[i := fst ab, j := snd ab]
        else ps)"

text \<open>
  The whole callback, for neighbour \<open>j\<close> of particle \<open>i\<close>, on the particle array and the
  set \<open>processed\<close> of pair keys. The search for the index of \<open>b\<close> in \<open>this.particles\<close> returns
  \<open>j\<close> itself, since a reference is an index here, so its \<open>j < 0\<close> exit cannot be taken.
\<close>

definition collideCallback :: "real \<Rightarrow> real \<Rightarrow> real \<Rightarrow> nat \<Rightarrow> nat
    \<Rightarrow> particle list \<times> (nat \<times> nat) set \<Rightarrow> particle list \<times> (nat \<times> nat) set" where
  "collideCallback h ax ay i j st =
    (let ps = fst st;
         processed = snd st
     in if i = j then st
        else let pairKey = (if i < j then (i, j) else (j, i))
             in if pairKey \<in> processed then st
                else (collidePair h ax ay i j ps, Set.insert pairKey processed))"

definition resolveCollisions :: "sim \<Rightarrow> sim" where
  "resolveCollisions s =
    (let rMax = 16;
         g = rebuild (grid s) (particles s);
         st = fold (\<lambda>i st.
                let a = fst st ! i;
                    ax = fst (pos a);
                    ay = snd (pos a)
                in fold (collideCallback (height s) ax ay i) (forNeighbors g ax ay rMax) st)
              [0..<length (particles s)] (particles s, {})
     in s\<lparr> grid := g, particles := fst st \<rparr>)"

subsection \<open>Forces, drag and thermostat (computeForces)\<close>

text \<open>The neighbour callback of \<open>computeForces\<close>, for neighbour \<open>j\<close> of particle \<open>i\<close>.\<close>

definition forceCallback :: "scenario \<Rightarrow> real \<Rightarrow> real \<Rightarrow> real \<Rightarrow> nat \<Rightarrow> nat
    \<Rightarrow> particle list \<Rightarrow> particle list" where
  "forceCallback P densityCut ax ay i j ps =
    (if i = j then ps
     else let a = ps ! i;
              b = ps ! j;
              dx = fst (pos b) - ax;
              dy = snd (pos b) - ay;
              rVec = (dx, dy);
              dist = hypot dx dy;
              a = (if dist < densityCut then a\<lparr> localNeighbors := localNeighbors a + 1 \<rparr> else a);
              f = pairForce P (state a) (state b) rVec
          in ps[i := a\<lparr> acc := vAdd (acc a) f \<rparr>])"

text \<open>The drag and kick loop body.\<close>

definition dragKick :: "real \<Rightarrow> real \<Rightarrow> particle \<Rightarrow> env \<Rightarrow> particle \<times> env" where
  "dragKick gamma kickSigma p e =
    (let (n0, e) = randNorm e;
         p = p\<lparr> acc := (fst (acc p) + (- gamma * fst (vel p) + n0 * kickSigma), snd (acc p)) \<rparr>;
         (n1, e) = randNorm e;
         p = p\<lparr> acc := (fst (acc p), snd (acc p) + (- gamma * snd (vel p) + n1 * kickSigma)) \<rparr>
     in (p, e))"

text \<open>The periodic velocity rescale, on the particle array, for the clamped temperature.\<close>

definition thermostat :: "real \<Rightarrow> particle list \<Rightarrow> particle list" where
  "thermostat kT' ps =
    (let rhoMin = 3;
         sel = filter (\<lambda>p. localNeighbors p < rhoMin \<or> state p = Gas) ps;
         keSum = fold (\<lambda>p k. k + 0.5 * jsor (mass p) 1 *
                   (fst (vel p) * fst (vel p) + snd (vel p) * snd (vel p))) sel 0;
         count = length sel
     in if count > 0
        then let keAvg = keSum / real count;
                 keTarget = 40 * (kT' + 0.05);
                 s = max 0.9 (min 1.1 (sqrt (max 0.000001 (keTarget / max 0.000001 keAvg))))
             in if \<bar>s - 1\<bar> > 0.02
                then map (\<lambda>p. if localNeighbors p < rhoMin \<or> state p = Gas
                               then p\<lparr> vel := (fst (vel p) * s, snd (vel p) * s) \<rparr> else p) ps
                else ps
        else ps)"

text \<open>
  The first half of \<open>computeForces\<close>, after the grid \<open>g\<close> is rebuilt: \<open>acc\<close> and
  \<open>localNeighbors\<close> are reset, then the neighbour loop runs for every particle.
\<close>

definition pairForces :: "scenario \<Rightarrow> neighbor_grid \<Rightarrow> particle list \<Rightarrow> particle list" where
  "pairForces P g ps =
    (let rMax = 28;
         ps = map (\<lambda>p. p\<lparr> acc := (0, 0), localNeighbors := 0 \<rparr>) ps
     in fold (\<lambda>i ps.
           let a = ps ! i;
               ax = fst (pos a);
               ay = snd (pos a);
               densityCut = 2.4 * sigma P
           in fold (forceCallback P densityCut ax ay i) (forNeighbors g ax ay rMax) ps)
         [0..<length ps] ps)"

definition computeForces :: "real \<Rightarrow> sim \<times> env \<Rightarrow> sim \<times> env" where
  "computeForces dt se =
    (let s = fst se;
         e = snd se;
         g = rebuild (grid s) (particles s);
         ps = pairForces (params s) g (particles s);
         gamma = 0.3;
         kT' = max 0 (jsor (kT (params s)) 0);
         kickSigma = sqrt (2 * gamma * kT');
         (ps, e) = forEachEnv (dragKick gamma kickSigma) ps e;
         (nowT, e) = performanceNow e;
         lastThermo = (if lastThermoMs s = 0 then nowT else lastThermoMs s)
     in if nowT - lastThermo > 500
        then (s\<lparr> grid := g, particles := thermostat kT' ps, lastThermoMs := nowT \<rparr>, e)
        else (s\<lparr> grid := g, particles := ps, lastThermoMs := lastThermo \<rparr>, e))"

subsection \<open>The step\<close>

text \<open>
  The heat intensity that the heating loop computes for a particle inside the heating
  zone, from the bottom edge and the x coordinate of the particle: the vertical gradient
  times the blend of the three hotspots.
\<close>

definition heatIntensityAt :: "sim \<Rightarrow> real \<Rightarrow> real \<Rightarrow> real" where
  "heatIntensityAt s particleBottom particleX =
    (let heatingZoneHeight = height s * 0.1;
         minHeatIntensity = 0.2;
         hotspotCount = 3;
         hotspotSpacing = width s / (hotspotCount + 1);
         distFromBottom = height s - particleBottom;
         normalizedDist = max 0 (min 1 (distFromBottom / heatingZoneHeight));
         verticalIntensity = 1.0 - normalizedDist * (1.0 - minHeatIntensity);
         hot = fold (\<lambda>h (totalHotspotContribution, weightedStrength).
                 let hotspotX = hotspotSpacing * (real h + 1);
                     distToHotspot = \<bar>particleX - hotspotX\<bar>;
                     hotspotRadius = width s * 0.15;
                     normalizedDist = distToHotspot / hotspotRadius;
                     hotspotIntensity = max 0 ((1.0 - min 1.0 normalizedDist) ^ 2)
                 in if hotspotIntensity > 0
                    then let hotspotStrength = jsor ([1.0, 0.85, 0.7] ! h) 1.0
                         in (totalHotspotContribution + hotspotIntensity,
                             weightedStrength + hotspotIntensity * hotspotStrength)
                    else (totalHotspotContribution, weightedStrength))
               [0..<3] (0, 0);
         totalHotspotContribution = fst hot;
         weightedStrength = snd hot;
         avgHotspotStrength =
           (if totalHotspotContribution > 0
            then weightedStrength / totalHotspotContribution else 0.7);
         horizontalIntensity = 0.3 + totalHotspotContribution * 0.7 * avgHotspotStrength
     in verticalIntensity * horizontalIntensity)"

text \<open>
  The heating loop's branch for a particle inside the heating zone, given its heat
  intensity: thermal gain, buoyancy, vibration and the heating acceleration.
\<close>

definition heatInside :: "real \<Rightarrow> real \<Rightarrow> real \<Rightarrow> particle \<Rightarrow> env \<Rightarrow> particle \<times> env" where
  "heatInside aH heatIntensity dtStep p e =
    (let thermalGainRate = 0.03;
         thermalGain = thermalGainRate * heatIntensity * dtStep;
         p = p\<lparr> thermalEnergy := min 1.0 (jsor (thermalEnergy p) 0 + thermalGain) \<rparr>;
         upwardAccel = thermalEnergy p * (- 2000);
         p = p\<lparr> acc := (fst (acc p), snd (acc p) + upwardAccel) \<rparr>;
         p = (if thermalEnergy p > 0.2
              then let upwardVelocityBoost = thermalEnergy p * (- 40)
                   in p\<lparr> vel := (fst (vel p), snd (vel p) + upwardVelocityBoost * dtStep) \<rparr>
              else p);
         vibrationStrength = thermalEnergy p * 120;
         (u0, e) = mathRandom e;
         vibrationX = (u0 - 0.5) * vibrationStrength;
         (u1, e) = mathRandom e;
         vibrationY = (u1 - 0.5) * vibrationStrength;
         p = p\<lparr> acc := (fst (acc p) + vibrationX, snd (acc p) + vibrationY) \<rparr>;
         scaledAccel = aH * heatIntensity;
         vx = fst (vel p);
         vy = snd (vel p);
         sp = hypot vx vy
     in if sp > 0.001
        then (p\<lparr> acc := (fst (acc p) + (vx / sp) * scaledAccel,
                          snd (acc p) + (vy / sp) * scaledAccel) \<rparr>, e)
        else let (u2, e) = mathRandom e;
                 ang = u2 * pi * 2
             in (p\<lparr> acc := (fst (acc p) + cos ang * scaledAccel,
                              snd (acc p) + sin ang * scaledAccel) \<rparr>, e))"

text \<open>The heating loop's branch for a particle outside the heating zone.\<close>

definition heatOutside :: "real \<Rightarrow> particle \<Rightarrow> env \<Rightarrow> particle \<times> env" where
  "heatOutside dtStep p e =
    (let thermalDissipationRate = 0.015;
         p = p\<lparr> thermalEnergy :=
               max 0 (jsor (thermalEnergy p) 0 - thermalDissipationRate * dtStep) \<rparr>
     in if thermalEnergy p > 0.1
        then let upwardAccel = thermalEnergy p * (- 1800);
                 p = p\<lparr> acc := (fst (acc p), snd (acc p) + upwardAccel) \<rparr>;
                 p = (if thermalEnergy p > 0.2
                      then let upwardVelocityBoost = thermalEnergy p * (- 35)
                           in p\<lparr> vel := (fst (vel p),
                                            snd (vel p) + upwardVelocityBoost * dtStep) \<rparr>
                      else p);
                 vibrationStrength = thermalEnergy p * 80;
                 (u0, e) = mathRandom e;
                 vibrationX = (u0 - 0.5) * vibrationStrength;
                 (u1, e) = mathRandom e;
                 vibrationY = (u1 - 0.5) * vibrationStrength
             in (p\<lparr> acc := (fst (acc p) + vibrationX, snd (acc p) + vibrationY) \<rparr>, e)
        else (p, e))"

text \<open>
  The body of the heating loop for one particle, heating switched on. The test
  \<open>p.thermalEnergy === undefined\<close> is never true for a particle built by \<open>makeParticle\<close>.
\<close>

definition heatParticle :: "sim \<Rightarrow> real \<Rightarrow> particle \<Rightarrow> env \<Rightarrow> particle \<times> env" where
  "heatParticle s dtStep p e =
    (let aH = heatAccel s;
         heatingZoneHeight = height s * 0.1;
         heatingZoneTop = height s - heatingZoneHeight;
         r = jsor (radius p) 3;
         particleBottom = snd (pos p) + r;
         particleX = fst (pos p)
     in if particleBottom \<ge> heatingZoneTop
        then heatInside aH (heatIntensityAt s particleBottom particleX) dtStep p e
        else heatOutside dtStep p e)"

text \<open>The body of the loop that runs instead when heating is off.\<close>

definition dissipate :: "real \<Rightarrow> particle \<Rightarrow> particle" where
  "dissipate dtStep p =
    (let thermalDissipationRate = 0.02
     in p\<lparr> thermalEnergy :=
            max 0 (jsor (thermalEnergy p) 0 - thermalDissipationRate * dtStep) \<rparr>)"

text \<open>The body of the integration loop, which ends with \<open>handleWalls\<close>.\<close>

definition integrate :: "real \<Rightarrow> real \<Rightarrow> real \<Rightarrow> particle \<Rightarrow> env \<Rightarrow> particle \<times> env" where
  "integrate w h dtStep p e =
    (let p = p\<lparr> vel := (fst (vel p) + (fst (acc p) / mass p) * dtStep, snd (vel p)) \<rparr>;
         p = p\<lparr> vel := (fst (vel p), snd (vel p) + (snd (acc p) / mass p) * dtStep) \<rparr>;
         p = p\<lparr> pos := (fst (pos p) + fst (vel p) * dtStep, snd (pos p)) \<rparr>;
         p = p\<lparr> pos := (fst (pos p), snd (pos p) + snd (vel p) * dtStep) \<rparr>;
         thermalE = jsor (thermalEnergy p) 0
     in if thermalE > 0.1
        then let vibVelStrength = thermalE * 8;
                 (u0, e) = mathRandom e;
                 p = p\<lparr> vel := (fst (vel p) + (u0 - 0.5) * vibVelStrength, snd (vel p)) \<rparr>;
                 (u1, e) = mathRandom e;
                 p = p\<lparr> vel := (fst (vel p), snd (vel p) + (u1 - 0.5) * vibVelStrength) \<rparr>
             in (handleWalls w h p, e)
        else (handleWalls w h p, e))"

text \<open>
  The body of the state update loop for one particle: \<open>P\<close> is \<open>this.params\<close>, \<open>h\<close> is
  \<open>this.height\<close>, \<open>nowS\<close> the clock reading of this substep. A \<open>continue\<close> leaves the
  particle as it is.
\<close>

definition classify :: "scenario \<Rightarrow> real \<Rightarrow> real \<Rightarrow> particle \<Rightarrow> particle" where
  "classify P h nowS p =
    (let epsBase = 0.15 + 0.25 * jsor (viscosity P) 0;
         c1 = 120;
         c2 = 10;
         rhoMin = 3;
         minStateDuration = 300;
         escapeMultiplier = 1.5;
         thermalBoilingThreshold = 0.4;
         v2 = fst (vel p) * fst (vel p) + snd (vel p) * snd (vel p);
         vGas2 = c1 * jsor (kT P) 0 + c2 * epsBase;
         thermalE = jsor (thermalEnergy p) 0;
         timeSinceStateChange = nowS - jsor (lastStateChange p) 0
     in if state p = Liquid
        then let hotParticle = (thermalE > 0.7);
                 effectiveMinDuration =
                   (if hotParticle then minStateDuration * 0.5 else minStateDuration)
             in if timeSinceStateChange < effectiveMinDuration then p
                else if localNeighbors p < rhoMin
                then let surfaceThreshold = vGas2 * 0.9
                     in if v2 > surfaceThreshold \<and> thermalE > 0.2
                        then let p = p\<lparr> state := Gas, gasUntil := nowS + 1500,
                                          lastStateChange := nowS \<rparr>
                             in if snd (vel p) < 50
                                then p\<lparr> vel := (fst (vel p), snd (vel p) - 30) \<rparr> else p
                        else p
                else let baseEscapeThreshold = vGas2 * escapeMultiplier;
                         thermalBonus = thermalE * 0.5;
                         escapeThreshold = baseEscapeThreshold * (1.0 - thermalBonus);
                         veryHotBonus = (if thermalE > 0.7 then 0.2 else 0);
                         finalThreshold = escapeThreshold * (1.0 - veryHotBonus)
                     in if v2 > finalThreshold \<and> thermalE > thermalBoilingThreshold
                        then let p = p\<lparr> state := Gas, gasUntil := nowS + 2000,
                                          lastStateChange := nowS \<rparr>
                             in if snd (vel p) < 50
                                then p\<lparr> vel := (fst (vel p), snd (vel p) - 40) \<rparr> else p
                        else p
        else if timeSinceStateChange < minStateDuration then p
             else let isRising = (snd (vel p) < - 10);
                      isNearTop = (snd (pos p) < h * 0.2);
                      condenseThreshold = (if isRising then 0.3 * vGas2 else 0.5 * vGas2);
                      thermalCondenseThreshold = 0.2
                  in if (v2 < condenseThreshold \<and> thermalE < thermalCondenseThreshold \<and> \<not> isRising)
                        \<or> (isNearTop \<and> thermalE < thermalCondenseThreshold \<and> v2 < 0.8 * vGas2)
                        \<or> (localNeighbors p \<ge> rhoMin \<and> \<not> isRising
                            \<and> thermalE < thermalCondenseThreshold)
                     then let p = p\<lparr> state := Liquid, lastStateChange := nowS \<rparr>
                          in if snd (pos p) + radius p < h * 0.9
                             then p\<lparr> thermalEnergy := max 0 (thermalE * 0.5) \<rparr> else p
                     else p)"

text \<open>
  One pass of the loop \<open>for (let it = 0; it < 5; it++)\<close>: \<open>resolveCollisions\<close>, then
  \<open>handleWalls\<close> for every particle.
\<close>

definition collisionPass :: "sim \<Rightarrow> sim" where
  "collisionPass s =
    (let s = resolveCollisions s
     in s\<lparr> particles := map (handleWalls (width s) (height s)) (particles s) \<rparr>)"

text \<open>One pass of the loop \<open>for (let s = 0; s < substeps; s++)\<close>.\<close>

definition substep :: "real \<Rightarrow> sim \<times> env \<Rightarrow> sim \<times> env" where
  "substep dtStep se =
    (let (s, e) = computeForces dtStep se;
         ps = particles s;
         ps = (if gravityOn s
               then let g = 900 in map (\<lambda>p. p\<lparr> acc := (fst (acc p), snd (acc p) + g) \<rparr>) ps
               else ps);
         (ps, e) = (if heatingOn s then forEachEnv (heatParticle s dtStep) ps e
                    else (map (dissipate dtStep) ps, e));
         ps = (if gravityOn s
               then map (\<lambda>p. if state p = Gas
                              then p\<lparr> acc := (fst (acc p), snd (acc p) - 300) \<rparr> else p) ps
               else ps);
         (ps, e) = forEachEnv (integrate (width s) (height s) dtStep) ps e;
         s = s\<lparr> particles := ps \<rparr>;
         s = (collisionPass ^^ 5) s;
         (nowS, e) = performanceNow e
     in (s\<lparr> particles := map (classify (params s) (height s) nowS) (particles s) \<rparr>, e))"

text \<open>
  \<open>step(dt)\<close>. \<open>this.particles[0]?.radius || 3\<close> is 3 for an empty array. The substep count
  is an integer of at least 1, and the loop runs that many times.
\<close>

definition substepCount :: "sim \<Rightarrow> real \<Rightarrow> int" where
  "substepCount s dt =
    (if gravityOn s
     then let maxSpeed = fold (\<lambda>p maxSpeed.
                           let sp = hypot (fst (vel p)) (snd (vel p))
                           in if sp > maxSpeed then sp else maxSpeed) (particles s) 0;
              minR = 0.5 * (case particles s of [] \<Rightarrow> 3 | p # ps \<Rightarrow> jsor (radius p) 3);
              safeDisp = max 2 minR
          in min 12 (max 2 \<lceil>(maxSpeed * dt) / safeDisp\<rceil>)
     else 1)"

definition step :: "real \<Rightarrow> sim \<times> env \<Rightarrow> sim \<times> env" where
  "step dt se =
    (let substeps = substepCount (fst se) dt;
         dtStep = dt / real_of_int substeps
     in (substep dtStep ^^ nat substeps) se)"

text \<open>A run of calls \<open>step(dt)\<close>, one for each element of the list.\<close>

definition steps :: "real list \<Rightarrow> sim \<times> env \<Rightarrow> sim \<times> env" where
  "steps dts se = fold step dts se"

subsection \<open>Observing phase flips\<close>

text \<open>
  Not in the source: a harness for the state classifier. Between two runs of the state
  update loop the rest of the step may change a particle's velocity, position, neighbour
  count and thermal energy in any way, but never its \<open>state\<close> or \<open>lastStateChange\<close>. A
  \<open>drive\<close> is the clock reading of one state update with the values those four fields
  have when it runs.
\<close>

record drive =
  d_now :: real
  d_vel :: vec
  d_pos :: vec
  d_neighbors :: nat
  d_thermal :: real

definition driven :: "particle \<Rightarrow> drive \<Rightarrow> particle" where
  "driven p d = p\<lparr> vel := d_vel d, pos := d_pos d, localNeighbors := d_neighbors d,
                    thermalEnergy := d_thermal d \<rparr>"

text \<open>
  Not in the source: the phase flips of one particle over a list of drives, each with its
  time, the phase entered and the thermal energy at that moment.
\<close>

fun flips :: "scenario \<Rightarrow> real \<Rightarrow> particle \<Rightarrow> drive list \<Rightarrow> (real \<times> phase \<times> real) list" where
  "flips P h p [] = []"
| "flips P h p (d # ds) =
    (let p' = classify P h (d_now d) (driven p d)
     in (if state p' \<noteq> state p then [(d_now d, state p', d_thermal d)] else [])
        @ flips P h p' ds)"

text \<open>
  Not in the source: every flip comes at least 300 ms after the one before it (\<open>prev\<close> for
  the first), or at least 150 ms for a flip to gas at a thermal energy above 0.7.
\<close>

fun dwellOK :: "real \<Rightarrow> (real \<times> phase \<times> real) list \<Rightarrow> bool" where
  "dwellOK prev [] = True"
| "dwellOK prev ((t, ph, th) # evs) =
    (t - prev \<ge> (if ph = Gas \<and> th > 0.7 then 150 else 300) \<and> dwellOK t evs)"

text \<open>Not in the source: every flip comes at least \<open>D\<close> after the one before it.\<close>

fun gapsAtLeast :: "real \<Rightarrow> real \<Rightarrow> (real \<times> phase \<times> real) list \<Rightarrow> bool" where
  "gapsAtLeast D prev [] = True"
| "gapsAtLeast D prev ((t, ph, th) # evs) = (t - prev \<ge> D \<and> gapsAtLeast D t evs)"

text \<open>A gas particle that last changed state at time 0, and two drives 150 ms apart.\<close>

definition gasParticle :: particle where
  "gasParticle = (makeParticle 100 100 (0, 0))\<lparr> state := Gas \<rparr>"

definition coolSlow :: drive where
  "coolSlow = \<lparr> d_now = 1000, d_vel = (0, 0), d_pos = (100, 100), d_neighbors = 0,
                 d_thermal = 0 \<rparr>"

definition hotFast :: drive where
  "hotFast = \<lparr> d_now = 1150, d_vel = (100, 0), d_pos = (100, 100), d_neighbors = 0,
                d_thermal = 0.8 \<rparr>"

subsection \<open>Domain predicates\<close>

text \<open>
  Not in the source: the two fields of a particle that are set at creation and never
  written afterwards.
\<close>

definition shape :: "particle \<Rightarrow> real \<times> real" where
  "shape p = (radius p, mass p)"

text \<open>
  Not in the source: every particle has a positive mass and a positive radius, and the
  domain is more than twice as wide and as high as the radius.
\<close>

definition fits :: "sim \<Rightarrow> bool" where
  "fits s = (\<forall>p \<in> set (particles s).
     0 < mass p \<and> 0 < radius p \<and> 2 * radius p < width s \<and> 2 * radius p < height s)"

text \<open>
  Not in the source: every particle lies inside the domain with the margin of its
  radius.
\<close>

definition inDomain :: "sim \<Rightarrow> bool" where
  "inDomain s = (\<forall>p \<in> set (particles s).
     radius p \<le> fst (pos p) \<and> fst (pos p) \<le> width s - radius p \<and>
     radius p \<le> snd (pos p) \<and> snd (pos p) \<le> height s - radius p)"

subsection \<open>Concrete simulations\<close>

text \<open>
  A simulation on the default 900 by 420 canvas with the honey scenario and one particle
  moving right at speed 10, and an environment whose clock always reads 1000.
\<close>

definition sim0 :: sim where
  "sim0 = \<lparr> width = 900, height = 420, params = honey,
            particles = [makeParticle 100 100 (10, 0)],
            grid = NeighborGrid 900 420 24, gravityOn = True, heatingOn = False,
            heatAccel = 80, lastThermoMs = 0 \<rparr>"

definition env0 :: env where
  "env0 = \<lparr> randomTape = (\<lambda>n. 0.5), randomPos = 0, normTape = (\<lambda>n. 0), normPos = 0,
            nowTape = (\<lambda>n. 1000), nowPos = 0 \<rparr>"

text \<open>Two particles at rest at the same point \<open>(100, 100)\<close>, on the default canvas.\<close>

definition simC :: sim where
  "simC = sim0\<lparr> particles := [makeParticle 100 100 (0, 0), makeParticle 100 100 (0, 0)] \<rparr>"

text \<open>
  Not in the source: a grid with the dimensions that the constructor computes for the
  default 900 by 420 canvas, whatever its cells hold.
\<close>

definition defaultShape :: "neighbor_grid \<Rightarrow> bool" where
  "defaultShape g = (cols g = 37 \<and> rows g = 17 \<and> cellSize g = 24 \<and> length (cells g) = 629)"

subsection \<open>Predicates for a system at rest\<close>

text \<open>
  Not in the source: the shape of a grid built by the constructor, at least one column
  and one row and one cell for each pair of them.
\<close>

definition wf_grid :: "neighbor_grid \<Rightarrow> bool" where
  "wf_grid g = (1 \<le> cols g \<and> 1 \<le> rows g \<and> length (cells g) = nat (cols g * rows g))"

text \<open>Not in the source: every particle index held by a cell is below \<open>n\<close>.\<close>

definition cellsBelow :: "nat \<Rightarrow> neighbor_grid \<Rightarrow> bool" where
  "cellsBelow n g = (\<forall>c \<in> set (cells g). case c of None \<Rightarrow> True | Some l \<Rightarrow> \<forall>i \<in> set l. i < n)"

text \<open>
  Not in the source: the distance between two particles exceeds the three force cutoffs
  and the particles do not overlap.
\<close>

definition separated :: "scenario \<Rightarrow> particle \<Rightarrow> particle \<Rightarrow> bool" where
  "separated P a b =
    (let d = vLen (vSub (pos b) (pos a))
     in 2.5 * sigma P < d \<and> 2.2 * sigma P < d \<and> 1.8 * sigma P < d \<and>
        radius a + radius b \<le> d)"

text \<open>
  Not in the source: a particle at rest, with a thermal energy of at most 0.1 (above that
  the step makes it vibrate), positive mass and radius, inside the walls with the margin
  of its radius.
\<close>

definition atRestInside :: "real \<Rightarrow> real \<Rightarrow> particle \<Rightarrow> bool" where
  "atRestInside w h p =
    (vel p = (0, 0) \<and> thermalEnergy p \<le> 0.1 \<and> 0 < mass p \<and> 0 < radius p \<and>
     radius p \<le> fst (pos p) \<and> fst (pos p) \<le> w - radius p \<and>
     radius p \<le> snd (pos p) \<and> snd (pos p) \<le> h - radius p)"

text \<open>
  Not in the source: every particle is at rest inside the walls and every two particles
  are separated.
\<close>

definition calm :: "real \<Rightarrow> real \<Rightarrow> scenario \<Rightarrow> particle list \<Rightarrow> bool" where
  "calm w h P ps =
    ((\<forall>p \<in> set ps. atRestInside w h p) \<and>
     (\<forall>i < length ps. \<forall>j < length ps. i \<noteq> j \<longrightarrow> separated P (ps ! i) (ps ! j)))"

text \<open>
  Not in the source: gravity and heating are off, \<open>kT\<close> is 0, and the grid has the shape
  the constructor gives it.
\<close>

definition quiet :: "sim \<Rightarrow> bool" where
  "quiet s = (\<not> gravityOn s \<and> \<not> heatingOn s \<and> kT (params s) = 0 \<and> wf_grid (grid s))"

text \<open>Not in the source: position, velocity, radius and mass of a particle.\<close>

definition sig :: "particle \<Rightarrow> vec \<times> vec \<times> real \<times> real" where
  "sig p = (pos p, vel p, radius p, mass p)"

text \<open>Not in the source: a particle with its neighbour count erased.\<close>

definition forget :: "particle \<Rightarrow> particle" where
  "forget p = p\<lparr> localNeighbors := 0 \<rparr>"

text \<open>
  Two particles at rest 100 apart, well inside the walls, with gravity and heating off
  and \<open>kT = 0\<close>.
\<close>

definition simR :: sim where
  "simR = sim0\<lparr> params := honey\<lparr> kT := 0 \<rparr>, gravityOn := False,
                 particles := [makeParticle 100 100 (0, 0), makeParticle 200 100 (0, 0)] \<rparr>"

text \<open>
  The same, but the first particle is at \<open>x = 1\<close>: inside the canvas, closer to the left
  wall than its radius 3.
\<close>

definition simW :: sim where
  "simW = sim0\<lparr> params := honey\<lparr> kT := 0 \<rparr>, gravityOn := False,
                 particles := [makeParticle 1 100 (0, 0), makeParticle 500 100 (0, 0)] \<rparr>"

subsection \<open>A single particle under drag\<close>

text \<open>
  Not in the source: what one step does to the position and velocity of a particle on
  which no force but the drag \<open>-0.3 \<cdot> vel\<close> acts: the velocity is scaled by
  \<open>1 - 0.3 \<cdot> dt / mass\<close>, the position advances by the new velocity times \<open>dt\<close>, and
  \<open>handleWalls\<close> is applied.
\<close>

definition coast :: "real \<Rightarrow> real \<Rightarrow> real \<Rightarrow> particle \<Rightarrow> particle" where
  "coast w h dt p =
    (let q = 1 - 0.3 * dt / mass p;
         v = (fst (vel p) * q, snd (vel p) * q)
     in handleWalls w h
          (p\<lparr> vel := v, pos := (fst (pos p) + fst v * dt, snd (pos p) + snd v * dt) \<rparr>))"

text \<open>
  Not in the source: all readings of the clock lie in one window of 500 ms, and so does
  the time of the last thermostat rescale unless it is still unset; then the thermostat
  interval never elapses.
\<close>

definition steadyClock :: "sim \<Rightarrow> env \<Rightarrow> bool" where
  "steadyClock s e =
    (\<exists>lo. (\<forall>k. lo \<le> nowTape e k \<and> nowTape e k \<le> lo + 500) \<and>
          (lastThermoMs s = 0 \<or> (lo \<le> lastThermoMs s \<and> lastThermoMs s \<le> lo + 500)))"

text \<open>
  Not in the source: the simulation holds the single particle \<open>p\<close>, with a thermal energy
  of at most 0.1, a positive mass and a positive radius that fits twice into the domain.
\<close>

definition lone :: "sim \<Rightarrow> particle \<Rightarrow> bool" where
  "lone s p = (particles s = [p] \<and> thermalEnergy p \<le> 0.1 \<and> 0 < mass p \<and> 0 < radius p \<and>
     2 * radius p \<le> width s \<and> 2 * radius p \<le> height s)"

text \<open>Not in the source: the sum \<open>q + q\<^sup>2 + \<dots> + q\<^sup>n\<close>.\<close>

fun geo :: "real \<Rightarrow> nat \<Rightarrow> real" where
  "geo q 0 = 0"
| "geo q (Suc n) = geo q n + q ^ Suc n"

text \<open>
  One particle at \<open>(100, 100)\<close> with velocity \<open>(10, 0)\<close> on the default canvas, gravity and
  heating off, \<open>kT = 0\<close>, and the viscosity, every cohesion coefficient and every strength
  set to 0.
\<close>

definition simG :: sim where
  "simG = sim0\<lparr> params := honey\<lparr> viscosity := 0, kT := 0, hbStrength := 0, dipole := 0,
                                   cohLJ := Some 0, cohHB := Some 0, cohDP := Some 0 \<rparr>,
                 gravityOn := False, particles := [makeParticle 100 100 (10, 0)] \<rparr>"

text \<open>
  The same, but the particle starts at \<open>x = 897\<close>, on the margin of the right wall
  (3 short of the right edge, with radius 3).
\<close>

definition simE :: sim where
  "simE = simG\<lparr> particles := [makeParticle 897 100 (10, 0)] \<rparr>"

subsection \<open>Pair contributions as the specification words them\<close>

text \<open>
  Not in the source, from the words of the claim on the phase scaling: what a neighbour \<open>b\<close>
  contributes to the acceleration of \<open>a\<close>. The three force terms at \<open>b.pos - a.pos\<close>, each
  times its scenario coefficient, with the factor 1.3 on the Lennard-Jones and the
  hydrogen-bond term when both particles are liquid, and with the factor 0.2 on all three
  terms otherwise, that is when \<open>a\<close> or \<open>b\<close> is gas.
\<close>

definition specContribution :: "scenario \<Rightarrow> particle \<Rightarrow> particle \<Rightarrow> vec" where
  "specContribution P a b =
    (let rVec = vSub (pos b) (pos a);
         fLJ = vMul (ljForce P rVec) (jsor_opt (cohLJ P) 1);
         fHB = vMul (hbForce P rVec) (jsor_opt (cohHB P) 1);
         fDP = vMul (dipoleForce P rVec) (jsor_opt (cohDP P) 1)
     in if state a = Liquid \<and> state b = Liquid
        then vAdd (vAdd (vMul fLJ 1.3) (vMul fHB 1.3)) fDP
        else vAdd (vAdd (vMul fLJ 0.2) (vMul fHB 0.2)) (vMul fDP 0.2))"

text \<open>Not in the source: the sum of the contributions of the visited neighbours.\<close>

definition visitSum :: "scenario \<Rightarrow> particle list \<Rightarrow> nat \<Rightarrow> nat list \<Rightarrow> vec \<Rightarrow> vec" where
  "visitSum P ps i js f0 =
     fold (\<lambda>j f. if j = i then f else vAdd f (specContribution P (ps ! i) (ps ! j))) js f0"

text \<open>
  Two liquid particles at rest 10 apart on the default canvas, in the honey scenario.
\<close>

definition simP :: sim where
  "simP = sim0\<lparr> particles := [makeParticle 100 100 (0, 0), makeParticle 110 100 (0, 0)] \<rparr>"

subsection \<open>The earlier version of the engine kept in highlow.js\<close>

text \<open>
  \<open>public/scripts/highlow.js\<close> holds, after the card game, an earlier version of the same
  module (its lines 116 to 1490). Its \<open>IMFSim\<close> wraps the particles around the domain when
  gravity is off and reflects them off the walls when gravity is on. The definitions below
  embed its \<open>NeighborGrid\<close> and its \<open>IMFSim.step\<close>; their names carry the suffix \<open>_hl\<close>. The
  utilities, the three force terms, the grid constructor and \<open>clear\<close> are the same text as
  in \<open>imfs.js\<close> and are shared. The particles of this version have no \<open>thermalEnergy\<close> and
  no \<open>lastStateChange\<close>; the two fields of the record are never read or written here.
\<close>

text \<open>
  The remainder \<open>a % b\<close> of JavaScript on integers: the sign of the dividend and the
  magnitude of \<open>|a| mod |b|\<close>. The divisors in the grid are \<open>cols\<close> and \<open>rows\<close>, at least 1.
\<close>

definition jsRem :: "int \<Rightarrow> int \<Rightarrow> int" where
  "jsRem a b = sgn a * (\<bar>a\<bar> mod \<bar>b\<bar>)"

text \<open>
  \<open>cellIndex\<close>, \<open>insert\<close> and \<open>forNeighbors\<close> of this version: the cell coordinates are taken
  modulo \<open>cols\<close> and \<open>rows\<close>, so that a query near an edge also visits the cells at the
  opposite edge.
\<close>

definition cellIndex_hl :: "neighbor_grid \<Rightarrow> real \<Rightarrow> real \<Rightarrow> int" where
  "cellIndex_hl g x y =
    (let cx = jsRem (jsRem \<lfloor>x / cellSize g\<rfloor> (cols g) + cols g) (cols g);
         cy = jsRem (jsRem \<lfloor>y / cellSize g\<rfloor> (rows g) + rows g) (rows g)
     in cy * cols g + cx)"

definition insert_hl :: "neighbor_grid \<Rightarrow> nat \<Rightarrow> particle \<Rightarrow> neighbor_grid" where
  "insert_hl g i p =
    (let idx = nat (cellIndex_hl g (fst (pos p)) (snd (pos p)));
         cell = (case cells g ! idx of None \<Rightarrow> [] | Some c \<Rightarrow> c)
     in g\<lparr> cells := (cells g)[idx := Some (cell @ [i])] \<rparr>)"

definition forNeighbors_hl :: "neighbor_grid \<Rightarrow> real \<Rightarrow> real \<Rightarrow> real \<Rightarrow> nat list" where
  "forNeighbors_hl g x y rad =
    (let r = rad;
         minCx = \<lfloor>(x - r) / cellSize g\<rfloor>;
         maxCx = \<lfloor>(x + r) / cellSize g\<rfloor>;
         minCy = \<lfloor>(y - r) / cellSize g\<rfloor>;
         maxCy = \<lfloor>(y + r) / cellSize g\<rfloor>
     in concat (map (\<lambda>cy. concat (map (\<lambda>cx.
          let ix = jsRem (jsRem cx (cols g) + cols g) (cols g);
              iy = jsRem (jsRem cy (rows g) + rows g) (rows g);
              idx = iy * cols g + ix
          in (case cells g ! nat idx of None \<Rightarrow> [] | Some cell \<Rightarrow> cell))
          [minCx..maxCx])) [minCy..maxCy]))"

definition rebuild_hl :: "neighbor_grid \<Rightarrow> particle list \<Rightarrow> neighbor_grid" where
  "rebuild_hl g ps = fold (\<lambda>i g'. insert_hl g' i (ps ! i)) [0..<length ps] (clear g)"

text \<open>\<open>makeParticle(x, y, kind)\<close> of this version, with the drawn velocity as an argument.\<close>

definition makeParticle_hl :: "real \<Rightarrow> real \<Rightarrow> vec \<Rightarrow> particle" where
  "makeParticle_hl x y v =
    \<lparr> pos = (x, y), vel = v, acc = (0, 0), mass = 1, radius = 6, state = Liquid,
      gasUntil = 0, localNeighbors = 0, thermalEnergy = 0, lastStateChange = 0 \<rparr>"

text \<open>\<open>wrap(p)\<close>, for the domain \<open>w\<close> by \<open>h\<close>.\<close>

definition wrap_hl :: "real \<Rightarrow> real \<Rightarrow> particle \<Rightarrow> particle" where
  "wrap_hl w h p =
    (let p = (if fst (pos p) < 0 then p\<lparr> pos := (fst (pos p) + w, snd (pos p)) \<rparr> else p);
         p = (if fst (pos p) \<ge> w then p\<lparr> pos := (fst (pos p) - w, snd (pos p)) \<rparr> else p);
         p = (if snd (pos p) < 0 then p\<lparr> pos := (fst (pos p), snd (pos p) + h) \<rparr> else p);
         p = (if snd (pos p) \<ge> h then p\<lparr> pos := (fst (pos p), snd (pos p) - h) \<rparr> else p)
     in p)"

text \<open>\<open>handleWalls(p)\<close> of this version: the default radius is 6.\<close>

definition handleWalls_hl :: "real \<Rightarrow> real \<Rightarrow> particle \<Rightarrow> particle" where
  "handleWalls_hl w h p =
    (let r = jsor (radius p) 6;
         e = 0.2;
         fx = 0.98;
         p = (if fst (pos p) < r
              then p\<lparr> pos := (r, snd (pos p)), vel := (- fst (vel p) * e, snd (vel p)) \<rparr>
              else p);
         p = (if fst (pos p) > w - r
              then p\<lparr> pos := (w - r, snd (pos p)), vel := (- fst (vel p) * e, snd (vel p)) \<rparr>
              else p);
         p = (if snd (pos p) < r
              then p\<lparr> pos := (fst (pos p), r), vel := (fst (vel p) * fx, - snd (vel p) * e) \<rparr>
              else p);
         p = (if snd (pos p) > h - r
              then p\<lparr> pos := (fst (pos p), h - r), vel := (fst (vel p) * fx, - snd (vel p) * e) \<rparr>
              else p)
     in p)"

text \<open>
  The minimum image of a coordinate difference under the period \<open>w\<close>, as both neighbour
  callbacks compute it.
\<close>

definition minImage :: "real \<Rightarrow> real \<Rightarrow> real" where
  "minImage w dx =
    (let dx = (if dx > w / 2 then dx - w else dx);
         dx = (if dx < - w / 2 then dx + w else dx)
     in dx)"

text \<open>The neighbour callback of \<open>computeForces\<close>, for neighbour \<open>j\<close> of particle \<open>i\<close>.\<close>

definition forceCallback_hl :: "scenario \<Rightarrow> real \<Rightarrow> real \<Rightarrow> real \<Rightarrow> real \<Rightarrow> real \<Rightarrow> nat \<Rightarrow> nat
    \<Rightarrow> particle list \<Rightarrow> particle list" where
  "forceCallback_hl P w h densityCut ax ay i j ps =
    (if i = j then ps
     else let a = ps ! i;
              b = ps ! j;
              dx = minImage w (fst (pos b) - ax);
              dy = minImage h (snd (pos b) - ay);
              rVec = (dx, dy);
              dist = hypot dx dy;
              a = (if dist < densityCut then a\<lparr> localNeighbors := localNeighbors a + 1 \<rparr> else a);
              gasScale = (if state a = Gas \<or> state b = Gas then 0.2 else 1.0);
              fLJ = vMul (ljForce P rVec) (jsor_opt (cohLJ P) 1);
              fHB = vMul (hbForce P rVec) (jsor_opt (cohHB P) 1);
              fDP = vMul (dipoleForce P rVec) (jsor_opt (cohDP P) 1);
              f = vAdd (vAdd (vMul fLJ gasScale) (vMul fHB gasScale)) (vMul fDP gasScale)
          in ps[i := a\<lparr> acc := vAdd (acc a) f \<rparr>])"

text \<open>The first half of \<open>computeForces\<close> of this version, after the grid is rebuilt.\<close>

definition pairForces_hl :: "scenario \<Rightarrow> real \<Rightarrow> real \<Rightarrow> neighbor_grid \<Rightarrow> particle list
    \<Rightarrow> particle list" where
  "pairForces_hl P w h g ps =
    (let rMax = 28;
         ps = map (\<lambda>p. p\<lparr> acc := (0, 0), localNeighbors := 0 \<rparr>) ps
     in fold (\<lambda>i ps.
           let a = ps ! i;
               ax = fst (pos a);
               ay = snd (pos a);
               densityCut = 2.4 * sigma P
           in fold (forceCallback_hl P w h densityCut ax ay i) (forNeighbors_hl g ax ay rMax) ps)
         [0..<length ps] ps)"

text \<open>The velocity rescale of this version, over all particles.\<close>

definition thermostat_hl :: "real \<Rightarrow> particle list \<Rightarrow> particle list" where
  "thermostat_hl kT' ps =
    (let keSum = fold (\<lambda>p k. k + 0.5 * jsor (mass p) 1 *
                   (fst (vel p) * fst (vel p) + snd (vel p) * snd (vel p))) ps 0;
         n = max 1 (length ps);
         keAvg = keSum / real n;
         keTarget = 40 * (kT' + 0.05);
         s = max 0.9 (min 1.1 (sqrt (max 0.000001 (keTarget / max 0.000001 keAvg))))
     in if \<bar>s - 1\<bar> > 0.02
        then map (\<lambda>p. p\<lparr> vel := (fst (vel p) * s, snd (vel p) * s) \<rparr>) ps
        else ps)"

text \<open>
  \<open>computeForces(dt)\<close> of this version: the pair forces, the drag and kick loop (the same
  body as in imfs.js), and the velocity rescale when more than 500 ms have passed.
\<close>

definition computeForces_hl :: "real \<Rightarrow> sim \<times> env \<Rightarrow> sim \<times> env" where
  "computeForces_hl dt se =
    (let s = fst se;
         e = snd se;
         g = rebuild_hl (grid s) (particles s);
         ps = pairForces_hl (params s) (width s) (height s) g (particles s);
         gamma = 0.3;
         kT' = max 0 (jsor (kT (params s)) 0);
         kickSigma = sqrt (2 * gamma * kT');
         (ps, e) = forEachEnv (dragKick gamma kickSigma) ps e;
         (nowT, e) = performanceNow e;
         lastThermo = (if lastThermoMs s = 0 then nowT else lastThermoMs s)
     in if nowT - lastThermo > 500
        then (s\<lparr> grid := g, particles := thermostat_hl kT' ps, lastThermoMs := nowT \<rparr>, e)
        else (s\<lparr> grid := g, particles := ps, lastThermoMs := lastThermo \<rparr>, e))"

text \<open>The body of the heating loop of this version.\<close>

definition heat_hl :: "real \<Rightarrow> particle \<Rightarrow> env \<Rightarrow> particle \<times> env" where
  "heat_hl aH p e =
    (let vx = fst (vel p);
         vy = snd (vel p);
         sp = hypot vx vy
     in if sp > 0.001
        then (p\<lparr> acc := (fst (acc p) + (vx / sp) * aH, snd (acc p) + (vy / sp) * aH) \<rparr>, e)
        else let (u, e) = mathRandom e;
                 ang = u * pi * 2
             in (p\<lparr> acc := (fst (acc p) + cos ang * aH, snd (acc p) + sin ang * aH) \<rparr>, e))"

text \<open>The body of the integration loop: walls when gravity is on, wrap when it is off.\<close>

definition integrate_hl :: "real \<Rightarrow> real \<Rightarrow> bool \<Rightarrow> real \<Rightarrow> particle \<Rightarrow> particle" where
  "integrate_hl w h gravity dt p =
    (let p = p\<lparr> vel := (fst (vel p) + (fst (acc p) / mass p) * dt, snd (vel p)) \<rparr>;
         p = p\<lparr> vel := (fst (vel p), snd (vel p) + (snd (acc p) / mass p) * dt) \<rparr>;
         p = p\<lparr> pos := (fst (pos p) + fst (vel p) * dt, snd (pos p)) \<rparr>;
         p = p\<lparr> pos := (fst (pos p), snd (pos p) + snd (vel p) * dt) \<rparr>
     in if gravity then handleWalls_hl w h p else wrap_hl w h p)"

text \<open>The body of the state update loop of this version.\<close>

definition classify_hl :: "scenario \<Rightarrow> real \<Rightarrow> particle \<Rightarrow> particle" where
  "classify_hl P nowS p =
    (let epsBase = 0.15 + 0.25 * jsor (viscosity P) 0;
         c1 = 120;
         c2 = 10;
         rhoMin = 3;
         v2 = fst (vel p) * fst (vel p) + snd (vel p) * snd (vel p);
         vGas2 = c1 * jsor (kT P) 0 + c2 * epsBase
     in if state p = Liquid
        then if v2 > vGas2 \<and> localNeighbors p < rhoMin
             then p\<lparr> state := Gas, gasUntil := nowS + 1500 \<rparr>
             else p
        else if nowS > gasUntil p \<or> v2 < 0.6 * vGas2 \<or> localNeighbors p \<ge> rhoMin
             then p\<lparr> state := Liquid \<rparr>
             else p)"

text \<open>
  The neighbour callback of \<open>resolveCollisions\<close>, for neighbour \<open>j\<close> of particle \<open>i\<close>; \<open>ax\<close> and
  \<open>ay\<close> are the coordinates of particle \<open>i\<close> read before its neighbours are visited.
\<close>

definition collideCallback_hl :: "real \<Rightarrow> real \<Rightarrow> real \<Rightarrow> real \<Rightarrow> nat \<Rightarrow> nat
    \<Rightarrow> particle list \<Rightarrow> particle list" where
  "collideCallback_hl w h ax ay i j ps =
    (if i = j then ps
     else let e = 0.2;
              a = ps ! i;
              b = ps ! j;
              dx = minImage w (fst (pos b) - ax);
              dy = minImage h (snd (pos b) - ay);
              dist = jsor (hypot dx dy) 0.000000001;
              minDist = jsor (radius a) 6 + jsor (radius b) 6
          in if dist < minDist
             then let nx = dx / dist;
                      ny = dy / dist;
                      overlap = minDist - dist;
                      corr = overlap * 0.5;
                      a = a\<lparr> pos := (fst (pos a) - nx * corr, snd (pos a) - ny * corr) \<rparr>;
                      b = b\<lparr> pos := (fst (pos b) + nx * corr, snd (pos b) + ny * corr) \<rparr>;
                      rvx = fst (vel b) - fst (vel a);
                      rvy = snd (vel b) - snd (vel a);
                      vn = rvx * nx + rvy * ny
                  in if vn < 0
                     then let jn = (- (1 + e) * vn) / (1 / jsor (mass a) 1 + 1 / jsor (mass b) 1);
                              jx = jn * nx;
                              jy = jn * ny;
                              a = a\<lparr> vel := (fst (vel a) - jx / jsor (mass a) 1,
                                              snd (vel a) - jy / jsor (mass a) 1) \<rparr>;
                              b = b\<lparr> vel := (fst (vel b) + jx / jsor (mass b) 1,
                                              snd (vel b) + jy / jsor (mass b) 1) \<rparr>
                          in ps[i := a, j := b]
                     else ps[i := a, j := b]
             else ps)"

text \<open>\<open>resolveCollisions()\<close> of this version.\<close>

definition resolveCollisions_hl :: "sim \<Rightarrow> sim" where
  "resolveCollisions_hl s =
    (let rMax = 14;
         g = rebuild_hl (grid s) (particles s);
         ps = fold (\<lambda>i ps.
                let a = ps ! i;
                    ax = fst (pos a);
                    ay = snd (pos a)
                in fold (collideCallback_hl (width s) (height s) ax ay i)
                     (forNeighbors_hl g ax ay rMax) ps)
              [0..<length (particles s)] (particles s)
     in s\<lparr> grid := g, particles := ps \<rparr>)"

text \<open>\<open>step(dt)\<close> of this version: one pass, with the two collision passes at the end.\<close>

definition step_hl :: "real \<Rightarrow> sim \<times> env \<Rightarrow> sim \<times> env" where
  "step_hl dt se =
    (let (s, e) = computeForces_hl dt se;
         ps = particles s;
         ps = (if gravityOn s
               then let g = 900 in map (\<lambda>p. p\<lparr> acc := (fst (acc p), snd (acc p) + g) \<rparr>) ps
               else ps);
         (ps, e) = (if heatingOn s then forEachEnv (heat_hl (heatAccel s)) ps e else (ps, e));
         ps = (if gravityOn s
               then map (\<lambda>p. if state p = Gas
                              then p\<lparr> acc := (fst (acc p), snd (acc p) - 600) \<rparr> else p) ps
               else ps);
         ps = map (integrate_hl (width s) (height s) (gravityOn s) dt) ps;
         (nowS, e) = performanceNow e;
         ps = map (classify_hl (params s) nowS) ps;
         s = s\<lparr> particles := ps \<rparr>;
         s = resolveCollisions_hl s;
         s = resolveCollisions_hl s
     in (s, e))"

text \<open>A run of calls \<open>step(dt)\<close> of this version, one for each element of the list.\<close>

definition steps_hl :: "real list \<Rightarrow> sim \<times> env \<Rightarrow> sim \<times> env" where
  "steps_hl dts se = fold step_hl dts se"


text \<open>
  Not in the source: what one step of the version in highlow.js does, with gravity off, to
  the position and velocity of a particle on which no force but the drag acts: as
  \<open>coast\<close>, with \<open>wrap\<close> in the place of \<open>handleWalls\<close>.
\<close>

definition coast_hl :: "real \<Rightarrow> real \<Rightarrow> real \<Rightarrow> particle \<Rightarrow> particle" where
  "coast_hl w h dt p =
    (let q = 1 - 0.3 * dt / mass p;
         v = (fst (vel p) * q, snd (vel p) * q)
     in wrap_hl w h
          (p\<lparr> vel := v, pos := (fst (pos p) + fst v * dt, snd (pos p) + snd v * dt) \<rparr>))"

text \<open>
  One particle of the version in highlow.js (radius 6) at \<open>(100, 100)\<close> with velocity
  \<open>(10, 0)\<close> on the default canvas, gravity off, so that the step wraps, heating off,
  \<open>kT = 0\<close>, and the viscosity, every cohesion coefficient and every strength set to 0.
\<close>

definition simH :: sim where
  "simH = simG\<lparr> particles := [makeParticle_hl 100 100 (10, 0)] \<rparr>"

text \<open>The same, but the particle starts at \<open>x = 897\<close>, 3 short of the right edge.\<close>

definition simHE :: sim where
  "simHE = simG\<lparr> particles := [makeParticle_hl 897 100 (10, 0)] \<rparr>"

section \<open>Properties\<close>

subsection \<open>Vectors\<close>

lemma hypot_nonneg: "0 \<le> hypot x y"
  by (simp add: hypot_def)

lemma hypot_x0: "hypot x 0 = \<bar>x\<bar>"
  by (simp add: hypot_def)

lemma vLen_x0: "vLen (x, 0) = \<bar>x\<bar>"
  by (simp add: vLen_def hypot_x0)

lemma vLen_nonneg: "0 \<le> vLen a"
  by (simp add: vLen_def hypot_nonneg)

lemma vLen_neg: "vLen (- fst a, - snd a) = vLen a"
  by (simp add: vLen_def hypot_def)

lemma vNorm_neg: "vNorm (- fst a, - snd a) = (- fst (vNorm a), - snd (vNorm a))"
  by (simp add: vNorm_def vLen_neg Let_def)

lemma vLen_sq: "vLen a * vLen a = fst a * fst a + snd a * snd a"
proof -
  have "0 \<le> fst a * fst a + snd a * snd a" by simp
  then show ?thesis by (simp add: vLen_def hypot_def)
qed

lemma vLen_vMul: "vLen (vMul a k) = vLen a * \<bar>k\<bar>"
proof -
  have "(fst a * k) * (fst a * k) + (snd a * k) * (snd a * k)
        = (fst a * fst a + snd a * snd a) * (k * k)"
    by (simp add: algebra_simps)
  then have "vLen (vMul a k) = sqrt ((fst a * fst a + snd a * snd a) * (k * k))"
    by (simp add: vLen_def hypot_def vMul_def)
  also have "\<dots> = sqrt (fst a * fst a + snd a * snd a) * sqrt (k * k)"
    by (rule real_sqrt_mult)
  finally show ?thesis by (simp add: vLen_def hypot_def)
qed

lemma vLen_vNorm: "vLen a > 0.000000000001 \<Longrightarrow> vLen (vNorm a) = 1"
proof -
  assume L: "vLen a > 0.000000000001"
  then have pos: "vLen a > 0" by simp
  have "vNorm a = vMul a (1 / vLen a)"
    using L by (simp add: vNorm_def vMul_def Let_def)
  then have "vLen (vNorm a) = vLen a * \<bar>1 / vLen a\<bar>"
    by (simp add: vLen_vMul)
  then show ?thesis using pos by simp
qed

lemma dot_vNorm: "vLen a > 0.000000000001 \<Longrightarrow> dot (vNorm a) a = vLen a"
proof -
  assume L: "vLen a > 0.000000000001"
  then have pos: "vLen a \<noteq> 0" by simp
  have "dot (vNorm a) a = (fst a * fst a + snd a * snd a) / vLen a"
    using L by (simp add: vNorm_def dot_def Let_def add_divide_distrib)
  also have "\<dots> = (vLen a * vLen a) / vLen a" by (simp add: vLen_sq)
  finally show ?thesis using pos by simp
qed

lemma dot_vNorm_nonneg: "0 \<le> dot (vNorm a) a"
proof (cases "vLen a > 0.000000000001")
  case True
  then show ?thesis using dot_vNorm [OF True] vLen_nonneg [of a] by simp
next
  case False
  then show ?thesis by (simp add: vNorm_def dot_def Let_def)
qed

lemma dot_vMul: "dot (vMul a k) b = k * dot a b"
  by (simp add: dot_def vMul_def algebra_simps)

subsection \<open>Force terms\<close>

lemma jsor_zero: "jsor x 0 = x"
  by (simp add: jsor_def)

lemma vMul_zero: "vMul a 0 = (0, 0)"
  by (simp add: vMul_def)

lemma clamp_bounds: "mn \<le> mx \<Longrightarrow> mn \<le> clamp v mn mx \<and> clamp v mn mx \<le> mx"
  by (simp add: clamp_def)

lemma sr_powers: "(s * s * (s * s) * (s * s)) = (s::real) ^ 6"
  "(s * s * (s * s) * (s * s)) * (s * s * (s * s) * (s * s)) = (s::real) ^ 12"
  by (simp_all add: eval_nat_numeral)

lemma ljForce_beyond: "2.5 * sigma P < vLen rVec \<Longrightarrow> ljForce P rVec = (0, 0)"
  by (simp add: ljForce_def Let_def clamp_def vMul_zero)

lemma ljForce_within:
  assumes "vLen rVec + 0.000000001 \<le> 2.5 * sigma P"
  shows "ljForce P rVec = vMul (vNorm rVec)
     (- clamp (24 * (0.3 + 0.5 * viscosity P) *
        (2 * (sigma P / (vLen rVec + 0.000000001)) ^ 12 - (sigma P / (vLen rVec + 0.000000001)) ^ 6) *
        (1 / (vLen rVec + 0.000000001))) (- 60) 60)"
  using assms by (simp add: ljForce_def Let_def jsor_zero sr_powers power_divide)

lemma lj_sign_pos:
  assumes r: "0 < (r::real)" and s: "0 < s" and e: "0 < e" and h: "r ^ 6 < 2 * s ^ 6"
  shows "0 < clamp (24 * e * (2 * (s / r) ^ 12 - (s / r) ^ 6) * (1 / r)) (- 60) 60"
proof -
  have q: "0 < (s / r) ^ 6" using r s by simp
  have "(s / r) ^ 6 = s ^ 6 / r ^ 6" by (simp add: power_divide)
  moreover have "1 / 2 < s ^ 6 / r ^ 6" using h r by (simp add: field_simps)
  ultimately have half: "1 / 2 < (s / r) ^ 6" by simp
  have "(s / r) ^ 12 = (s / r) ^ 6 * (s / r) ^ 6" by (simp add: power_add [symmetric])
  then have "2 * (s / r) ^ 12 - (s / r) ^ 6 = (s / r) ^ 6 * (2 * (s / r) ^ 6 - 1)"
    by (simp add: algebra_simps)
  moreover have "0 < (s / r) ^ 6 * (2 * (s / r) ^ 6 - 1)" using q half by simp
  ultimately have "0 < 2 * (s / r) ^ 12 - (s / r) ^ 6" by simp
  then have "0 < 24 * e * (2 * (s / r) ^ 12 - (s / r) ^ 6) * (1 / r)" using e r by simp
  then show ?thesis by (simp add: clamp_def)
qed

lemma lj_sign_neg:
  assumes r: "0 < (r::real)" and s: "0 < s" and e: "0 < e" and h: "2 * s ^ 6 < r ^ 6"
  shows "clamp (24 * e * (2 * (s / r) ^ 12 - (s / r) ^ 6) * (1 / r)) (- 60) 60 < 0"
proof -
  have q: "0 < (s / r) ^ 6" using r s by simp
  have "(s / r) ^ 6 = s ^ 6 / r ^ 6" by (simp add: power_divide)
  moreover have "s ^ 6 / r ^ 6 < 1 / 2" using h r by (simp add: field_simps)
  ultimately have half: "(s / r) ^ 6 < 1 / 2" by simp
  have "(s / r) ^ 12 = (s / r) ^ 6 * (s / r) ^ 6" by (simp add: power_add [symmetric])
  then have "2 * (s / r) ^ 12 - (s / r) ^ 6 = (s / r) ^ 6 * (2 * (s / r) ^ 6 - 1)"
    by (simp add: algebra_simps)
  moreover have "(s / r) ^ 6 * (2 * (s / r) ^ 6 - 1) < 0"
    using q half by (simp add: mult_less_0_iff)
  ultimately have "2 * (s / r) ^ 12 - (s / r) ^ 6 < 0" by simp
  moreover have "0 < 24 * e * (1 / r)" using e r by simp
  ultimately have "(24 * e * (1 / r)) * (2 * (s / r) ^ 12 - (s / r) ^ 6) < 0"
    by (rule mult_pos_neg [rotated])
  then have "24 * e * (2 * (s / r) ^ 12 - (s / r) ^ 6) * (1 / r) < 0"
    by (simp add: mult.assoc mult.commute mult.left_commute)
  then show ?thesis by (simp add: clamp_def)
qed

text \<open>
  Claim C1. Write \<open>r\<close> for the separation as \<open>ljForce\<close> computes it, \<open>vLen rVec + 1e-9\<close>
  (the padding the numeric policy prescribes). The Lennard-Jones term is exactly zero when
  the separation, padded or not, exceeds \<open>2.5\<sigma>\<close>. For \<open>r\<close> at or below the cutoff the term is
  the normalised displacement \<open>vNorm rVec\<close> times \<open>- m\<close>, where the signed magnitude \<open>m\<close> is
  \<open>24 \<epsilon> (2 (\<sigma>/r)^12 - (\<sigma>/r)^6) (1/r)\<close> with \<open>\<epsilon> = 0.3 + 0.5 viscosity\<close>, clamped to
  \<open>[-60, 60]\<close>. For a displacement longer than \<open>1e-12\<close> (below that \<open>vNorm\<close> returns the zero
  vector) the length of the force is \<open>\<bar>m\<bar>\<close> and its inner product with \<open>rVec = b - a\<close> is
  \<open>- m\<close> times the separation: with non-negative viscosity and positive \<open>\<sigma>\<close> it pushes \<open>a\<close>
  away from \<open>b\<close> (\<open>m > 0\<close>) when \<open>r^6 < 2 \<sigma>^6\<close> and pulls \<open>a\<close> towards \<open>b\<close> (\<open>m < 0\<close>) in the
  well \<open>2 \<sigma>^6 < r^6\<close>, \<open>r \<le> 2.5\<sigma>\<close>.
\<close>

theorem ljForce_cutoff_magnitude_direction:
  "(2.5 * sigma P < vLen rVec \<longrightarrow> ljForce P rVec = (0, 0)) \<and>
   (let r = vLen rVec + 0.000000001;
        m = clamp (24 * (0.3 + 0.5 * viscosity P) *
                   (2 * (sigma P / r) ^ 12 - (sigma P / r) ^ 6) * (1 / r)) (- 60) 60
    in (2.5 * sigma P < r \<longrightarrow> ljForce P rVec = (0, 0)) \<and>
       (r \<le> 2.5 * sigma P \<longrightarrow>
          ljForce P rVec = vMul (vNorm rVec) (- m) \<and> - 60 \<le> m \<and> m \<le> 60 \<and>
          (0.000000000001 < vLen rVec \<longrightarrow>
             vLen (ljForce P rVec) = \<bar>m\<bar> \<and> dot (ljForce P rVec) rVec = - m * vLen rVec) \<and>
          (0 \<le> viscosity P \<and> 0 < sigma P \<and> r ^ 6 < 2 * sigma P ^ 6 \<longrightarrow> 0 < m) \<and>
          (0 \<le> viscosity P \<and> 0 < sigma P \<and> 2 * sigma P ^ 6 < r ^ 6 \<longrightarrow> m < 0)))"
proof -
  define r where "r = vLen rVec + 0.000000001"
  define m where "m = clamp (24 * (0.3 + 0.5 * viscosity P) *
                   (2 * (sigma P / r) ^ 12 - (sigma P / r) ^ 6) * (1 / r)) (- 60) 60"
  have rpos: "0 < r" using vLen_nonneg [of rVec] by (simp add: r_def)
  have a: "2.5 * sigma P < vLen rVec \<longrightarrow> ljForce P rVec = (0, 0)"
    using ljForce_beyond by blast
  have a': "2.5 * sigma P < r \<longrightarrow> ljForce P rVec = (0, 0)"
    by (simp add: ljForce_def Let_def clamp_def vMul_zero r_def)
  have b: "r \<le> 2.5 * sigma P \<longrightarrow> ljForce P rVec = vMul (vNorm rVec) (- m)"
    using ljForce_within [of rVec P] by (simp add: r_def m_def)
  have c: "- 60 \<le> m \<and> m \<le> 60"
    unfolding m_def by (rule clamp_bounds) simp
  have d: "r \<le> 2.5 * sigma P \<longrightarrow> 0.000000000001 < vLen rVec \<longrightarrow>
             vLen (ljForce P rVec) = \<bar>m\<bar> \<and> dot (ljForce P rVec) rVec = - m * vLen rVec"
    using b by (simp add: vLen_vMul vLen_vNorm dot_vMul dot_vNorm)
  have e: "0 \<le> viscosity P \<and> 0 < sigma P \<and> r ^ 6 < 2 * sigma P ^ 6 \<longrightarrow> 0 < m"
  proof (intro impI, elim conjE)
    assume "0 \<le> viscosity P" "0 < sigma P" "r ^ 6 < 2 * sigma P ^ 6"
    then show "0 < m"
      unfolding m_def using rpos by (intro lj_sign_pos) simp_all
  qed
  have f: "0 \<le> viscosity P \<and> 0 < sigma P \<and> 2 * sigma P ^ 6 < r ^ 6 \<longrightarrow> m < 0"
  proof (intro impI, elim conjE)
    assume "0 \<le> viscosity P" "0 < sigma P" "2 * sigma P ^ 6 < r ^ 6"
    then show "m < 0"
      unfolding m_def using rpos by (intro lj_sign_neg) simp_all
  qed
  show ?thesis
    using a a' b c d e f unfolding Let_def r_def [symmetric] m_def [symmetric] by blast
qed

theorem ljForce_cutoff_magnitude_direction_witness:
  "2.5 * sigma honey < vLen (30, 0) \<and> ljForce honey (30, 0) = (0, 0) \<and>
   vLen (10, 0) + 0.000000001 \<le> 2.5 * sigma honey \<and>
   dot (ljForce honey (10, 0)) (10, 0) < 0 \<and>
   vLen (20, 0) + 0.000000001 \<le> 2.5 * sigma honey \<and>
   0 < dot (ljForce honey (20, 0)) (20, 0)"
proof -
  have vs: "0 \<le> viscosity honey" "0 < sigma honey"
    by (simp_all add: honey_def)
  have far: "2.5 * sigma honey < vLen (30, 0)"
    by (simp add: vLen_x0 honey_def)
  have z: "ljForce honey (30, 0) = (0, 0)"
    using ljForce_cutoff_magnitude_direction [of honey "(30, 0)"] far by blast
  have near: "vLen (10, 0) + 0.000000001 \<le> 2.5 * sigma honey"
    by (simp add: vLen_x0 honey_def)
  have len10: "0.000000000001 < vLen (10, 0)" "0 < vLen (10, 0)"
    by (simp_all add: vLen_x0)
  have p10: "(vLen (10, 0) + 0.000000001) ^ 6 < 2 * sigma honey ^ 6"
    by (simp add: vLen_x0 honey_def power_divide)
  let ?m10 = "clamp (24 * (0.3 + 0.5 * viscosity honey) *
      (2 * (sigma honey / (vLen (10, 0) + 0.000000001)) ^ 12 -
       (sigma honey / (vLen (10, 0) + 0.000000001)) ^ 6) *
      (1 / (vLen (10, 0) + 0.000000001))) (- 60) 60"
  have "0 < ?m10 \<and> dot (ljForce honey (10, 0)) (10, 0) = - ?m10 * vLen (10, 0)"
    using ljForce_cutoff_magnitude_direction [of honey "(10, 0)"] near len10 p10 vs
    unfolding Let_def by blast
  then have rep: "dot (ljForce honey (10, 0)) (10, 0) < 0"
    using len10 by simp
  have mid: "vLen (20, 0) + 0.000000001 \<le> 2.5 * sigma honey"
    by (simp add: vLen_x0 honey_def)
  have len20: "0.000000000001 < vLen (20, 0)" "0 < vLen (20, 0)"
    by (simp_all add: vLen_x0)
  have p20: "2 * sigma honey ^ 6 < (vLen (20, 0) + 0.000000001) ^ 6"
    by (simp add: vLen_x0 honey_def power_divide)
  let ?m20 = "clamp (24 * (0.3 + 0.5 * viscosity honey) *
      (2 * (sigma honey / (vLen (20, 0) + 0.000000001)) ^ 12 -
       (sigma honey / (vLen (20, 0) + 0.000000001)) ^ 6) *
      (1 / (vLen (20, 0) + 0.000000001))) (- 60) 60"
  have "?m20 < 0 \<and> dot (ljForce honey (20, 0)) (20, 0) = - ?m20 * vLen (20, 0)"
    using ljForce_cutoff_magnitude_direction [of honey "(20, 0)"] mid len20 p20 vs
    unfolding Let_def by blast
  then have att: "0 < dot (ljForce honey (20, 0)) (20, 0)"
    using len20 by (simp add: mult_neg_pos)
  show ?thesis using far z near rep mid att by blast
qed



lemma hbForce_zero_coeff: "hbStrength P \<le> 0 \<Longrightarrow> hbForce P rVec = (0, 0)"
  by (simp add: hbForce_def Let_def)

lemma hbForce_zero_beyond: "1.8 * sigma P < vLen rVec \<Longrightarrow> hbForce P rVec = (0, 0)"
  by (simp add: hbForce_def Let_def)

lemma dipoleForce_zero_coeff: "dipole P \<le> 0 \<Longrightarrow> dipoleForce P rVec = (0, 0)"
  by (simp add: dipoleForce_def Let_def)

lemma dipoleForce_zero_beyond: "2.2 * sigma P < vLen rVec \<Longrightarrow> dipoleForce P rVec = (0, 0)"
  by (simp add: dipoleForce_def Let_def)

lemma dot_zero_left: "dot (0, 0) a = 0"
  by (simp add: dot_def)

lemma dot_scaled_vNorm_nonpos: "f \<le> 0 \<Longrightarrow> dot (vMul (vNorm a) f) a \<le> 0"
  using dot_vNorm_nonneg [of a] by (simp add: dot_vMul mult_nonpos_nonneg)

lemma hbForce_dot_nonpos: "dot (hbForce P rVec) rVec \<le> 0"
proof (cases "hbStrength P \<le> 0 \<or> vLen rVec + 0.000000001 > 1.8 * sigma P")
  case True
  then have "hbForce P rVec = (0, 0)" by (auto simp add: hbForce_def Let_def)
  then show ?thesis by (simp add: dot_zero_left)
next
  case False
  let ?f = "- hbStrength P * 1 * max 0 (1 - (vLen rVec + 0.000000001) / (1.8 * sigma P))"
  have "0 \<le> hbStrength P * max 0 (1 - (vLen rVec + 0.000000001) / (1.8 * sigma P))"
    using False by (intro mult_nonneg_nonneg) simp_all
  then have "?f \<le> 0" by simp
  moreover have "hbForce P rVec = vMul (vNorm rVec) ?f"
    using False by (simp add: hbForce_def Let_def)
  ultimately show ?thesis using dot_scaled_vNorm_nonpos [of ?f rVec] by simp
qed

lemma dipoleForce_dot_nonpos: "dot (dipoleForce P rVec) rVec \<le> 0"
proof (cases "dipole P \<le> 0 \<or> vLen rVec + 0.000000001 > 2.2 * sigma P")
  case True
  then have "dipoleForce P rVec = (0, 0)" by (auto simp add: dipoleForce_def Let_def)
  then show ?thesis by (simp add: dot_zero_left)
next
  case False
  let ?r = "vLen rVec + 0.000000001"
  let ?f = "- dipole P * (1 / (?r * ?r)) * max 0.1 (1 - ?r / (2.2 * sigma P))"
  have "0 \<le> dipole P * (1 / (?r * ?r)) * max 0.1 (1 - ?r / (2.2 * sigma P))"
    using False by (intro mult_nonneg_nonneg) simp_all
  then have "?f \<le> 0" by simp
  moreover have "dipoleForce P rVec = vMul (vNorm rVec) ?f"
    using False by (simp add: dipoleForce_def Let_def)
  ultimately show ?thesis using dot_scaled_vNorm_nonpos [of ?f rVec] by simp
qed

lemma vNorm_x0: "0.000000000001 < x \<Longrightarrow> vNorm (x, 0) = (1, 0)"
  by (simp add: vNorm_def vLen_x0 Let_def)

text \<open>
  Claim C2. The two cohesion terms are zero beyond their cutoffs and for a non-positive
  coefficient (the four lemmas above), but inside the cutoff they are not attractive: the
  factor \<open>f\<close> is negative and multiplies the unit vector from \<open>a\<close> to \<open>b\<close>, so the force on
  \<open>a\<close> never has a positive component towards \<open>b\<close> (\<open>hbForce_dot_nonpos\<close>,
  \<open>dipoleForce_dot_nonpos\<close>). With \<open>b\<close> ten units to the right of \<open>a\<close>, the honey scenario's
  hydrogen-bond term and the DMSO scenario's dipole term both push \<open>a\<close> to the left, away
  from \<open>b\<close>. \<open>ljForce\<close> negates its magnitude for the same \<open>rVec\<close> convention; these two
  terms do not.
\<close>

theorem cohesion_terms_push_away:
  "hbForce honey (10, 0) = (- 0.7999999999, 0) \<and>
   fst (dipoleForce dmso (10, 0)) < 0 \<and> snd (dipoleForce dmso (10, 0)) = 0 \<and>
   dot (hbForce honey (10, 0)) (10, 0) < 0 \<and> dot (dipoleForce dmso (10, 0)) (10, 0) < 0"
proof -
  have hb: "hbForce honey (10, 0) = (- 0.7999999999, 0)"
    by (simp add: hbForce_def honey_def Let_def vLen_x0 vNorm_x0 vMul_def)
  have dp: "fst (dipoleForce dmso (10, 0)) < 0 \<and> snd (dipoleForce dmso (10, 0)) = 0"
    by (simp add: dipoleForce_def dmso_def Let_def vLen_x0 vNorm_x0 vMul_def)
  have "dot (hbForce honey (10, 0)) (10, 0) < 0"
    by (simp add: hb dot_def)
  moreover have "dot (dipoleForce dmso (10, 0)) (10, 0) < 0"
    using dp by (simp add: dot_def)
  ultimately show ?thesis using hb dp by blast
qed


lemma vLen_vNeg: "vLen (vNeg a) = vLen a"
  by (simp add: vNeg_def vLen_neg)

lemma vNorm_vNeg: "vNorm (vNeg a) = vNeg (vNorm a)"
  by (simp add: vNeg_def vNorm_neg)

lemma vMul_vNeg: "vMul (vNeg a) k = vNeg (vMul a k)"
  by (simp add: vNeg_def vMul_def)

lemma vAdd_vNeg: "vAdd (vNeg a) (vNeg b) = vNeg (vAdd a b)"
  by (simp add: vNeg_def vAdd_def)

lemma vNeg_zero: "vNeg (0, 0) = (0, 0)"
  by (simp add: vNeg_def)

lemma ljForce_vNeg: "ljForce P (vNeg rVec) = vNeg (ljForce P rVec)"
  by (simp add: ljForce_def Let_def vLen_vNeg vNorm_vNeg vMul_vNeg)

lemma hbForce_vNeg: "hbForce P (vNeg rVec) = vNeg (hbForce P rVec)"
  by (simp add: hbForce_def Let_def vLen_vNeg vNorm_vNeg vMul_vNeg vNeg_zero)

lemma dipoleForce_vNeg: "dipoleForce P (vNeg rVec) = vNeg (dipoleForce P rVec)"
  by (simp add: dipoleForce_def Let_def vLen_vNeg vNorm_vNeg vMul_vNeg vNeg_zero)

lemma pairForce_vNeg: "pairForce P sb sa (vNeg rVec) = vNeg (pairForce P sa sb rVec)"
proof -
  have "pairForce P sb sa rVec = pairForce P sa sb rVec"
    by (cases sa; cases sb) (simp_all add: pairForce_def)
  moreover have "pairForce P sb sa (vNeg rVec) = vNeg (pairForce P sb sa rVec)"
    by (simp add: pairForce_def Let_def ljForce_vNeg hbForce_vNeg dipoleForce_vNeg
        vMul_vNeg vAdd_vNeg)
  ultimately show ?thesis by simp
qed

text \<open>
  Claim C3. Each force term is odd in the displacement, and so is the weighted sum that
  \<open>computeForces\<close> forms for a pair, with the two phases swapped along with the roles of
  the particles: the force computed on \<open>a\<close> from \<open>b\<close> (displacement \<open>b - a\<close>) is the negation
  of the force computed on \<open>b\<close> from \<open>a\<close> (displacement \<open>a - b\<close>).
\<close>

theorem newton_third_law:
  "ljForce P (vNeg rVec) = vNeg (ljForce P rVec) \<and>
   hbForce P (vNeg rVec) = vNeg (hbForce P rVec) \<and>
   dipoleForce P (vNeg rVec) = vNeg (dipoleForce P rVec) \<and>
   pairForce P sb sa (vNeg rVec) = vNeg (pairForce P sa sb rVec) \<and>
   pairForce P sb sa (vSub pa pb) = vNeg (pairForce P sa sb (vSub pb pa))"
proof -
  have "vSub pa pb = vNeg (vSub pb pa)" by (simp add: vSub_def vNeg_def)
  then show ?thesis
    by (simp add: ljForce_vNeg hbForce_vNeg dipoleForce_vNeg pairForce_vNeg)
qed

lemma forceCallback_acc:
  assumes "i \<noteq> j" and "i < length ps"
  shows "acc (forceCallback P dc ax ay i j ps ! i) =
           vAdd (acc (ps ! i))
             (pairForce P (state (ps ! i)) (state (ps ! j))
                (fst (pos (ps ! j)) - ax, snd (pos (ps ! j)) - ay))"
  using assms by (simp add: forceCallback_def Let_def)

lemma forceCallback_others:
  assumes "k \<noteq> i"
  shows "forceCallback P dc ax ay i j ps ! k = ps ! k"
  using assms by (simp add: forceCallback_def Let_def)

lemma forceCallback_length: "length (forceCallback P dc ax ay i j ps) = length ps"
  by (simp add: forceCallback_def Let_def)

lemma pairForce_liquid:
  "pairForce P Liquid Liquid rVec =
     vAdd (vAdd (vMul (vMul (ljForce P rVec) (jsor_opt (cohLJ P) 1)) 1.3)
                (vMul (vMul (hbForce P rVec) (jsor_opt (cohHB P) 1)) 1.3))
          (vMul (dipoleForce P rVec) (jsor_opt (cohDP P) 1))"
  by (simp add: pairForce_def vMul_def vAdd_def)

lemma pairForce_gas:
  assumes "sa = Gas \<or> sb = Gas"
  shows "pairForce P sa sb rVec =
     vAdd (vAdd (vMul (vMul (ljForce P rVec) (jsor_opt (cohLJ P) 1)) 0.2)
                (vMul (vMul (hbForce P rVec) (jsor_opt (cohHB P) 1)) 0.2))
          (vMul (vMul (dipoleForce P rVec) (jsor_opt (cohDP P) 1)) 0.2)"
  using assms by (auto simp add: pairForce_def vMul_def vAdd_def)

subsection \<open>Spatial index\<close>

text \<open>
  Claim C4. \<open>floor(width / cellSize)\<close> columns leave a strip at the right edge that no
  column covers when the width is not a multiple of the cell size. \<open>insert\<close> clamps a
  particle of the strip into the last column; \<open>forNeighbors\<close> skips the cells beyond the
  last column instead of clamping them. On a canvas 911 wide (37 columns of 24, a strip
  from 888 to 911) the query that \<open>resolveCollisions\<close> makes for the particle at
  \<open>(908, 100)\<close>, with radius 16, visits no cell at all: neither the particle 3 units to
  its left nor the particle itself is passed to the callback.
\<close>

theorem forNeighbors_misses_edge_strip:
  "forNeighbors
     (rebuild (NeighborGrid 911 420 24)
        [makeParticle 905 100 (0, 0), makeParticle 908 100 (0, 0)])
     908 100 16 = [] \<and>
   hypot (905 - 908) (100 - 100) \<le> 16"
  by (simp add: forNeighbors_def Let_def rebuild_def insert_def clear_def NeighborGrid_def hypot_x0)

subsection \<open>State classifier\<close>

lemma classify_same_state:
  "state (classify P h t p) = state p \<Longrightarrow> lastStateChange (classify P h t p) = lastStateChange p"
  by (cases "state p"; cases "thermalEnergy p > 0.7")
     (auto simp add: classify_def Let_def jsor_zero split: if_splits)

lemma classify_to_gas:
  assumes "state p = Liquid" "state (classify P h t p) \<noteq> state p"
  shows "state (classify P h t p) = Gas \<and> lastStateChange (classify P h t p) = t \<and>
         t - lastStateChange p \<ge> (if thermalEnergy p > 0.7 then 150 else 300)"
  using assms
  by (cases "thermalEnergy p > 0.7")
     (auto simp add: classify_def Let_def jsor_zero split: if_splits)

lemma classify_to_liquid:
  assumes "state p = Gas" "state (classify P h t p) \<noteq> state p"
  shows "state (classify P h t p) = Liquid \<and> lastStateChange (classify P h t p) = t \<and>
         t - lastStateChange p \<ge> 300"
  using assms by (auto simp add: classify_def Let_def jsor_zero split: if_splits)

lemma driven_fields:
  "state (driven p d) = state p" "lastStateChange (driven p d) = lastStateChange p"
  "thermalEnergy (driven p d) = d_thermal d"
  by (simp_all add: driven_def)

lemma flips_dwellOK: "dwellOK (lastStateChange p) (flips P h p ds)"
proof (induction ds arbitrary: p)
  case Nil
  show ?case by simp
next
  case (Cons d ds)
  let ?q = "driven p d"
  let ?p' = "classify P h (d_now d) ?q"
  show ?case
  proof (cases "state ?p' = state p")
    case True
    then have "lastStateChange ?p' = lastStateChange p"
      using classify_same_state [of P h "d_now d" ?q] by (simp add: driven_fields)
    then show ?thesis using True Cons.IH [of ?p'] by (simp add: Let_def)
  next
    case False
    show ?thesis
    proof (cases "state p")
      case Liquid
      then have "state ?p' = Gas \<and> lastStateChange ?p' = d_now d \<and>
          d_now d - lastStateChange p \<ge> (if d_thermal d > 0.7 then 150 else 300)"
        using classify_to_gas [of ?q P h "d_now d"] False by (simp add: driven_fields)
      then show ?thesis using False Cons.IH [of ?p'] by (simp add: Let_def)
    next
      case Gas
      then have "state ?p' = Liquid \<and> lastStateChange ?p' = d_now d \<and>
          d_now d - lastStateChange p \<ge> 300"
        using classify_to_liquid [of ?q P h "d_now d"] False by (simp add: driven_fields)
      then show ?thesis using False Cons.IH [of ?p'] by (simp add: Let_def)
    qed
  qed
qed

lemma dwellOK_gaps150: "dwellOK prev evs \<Longrightarrow> gapsAtLeast 150 prev evs"
  by (induction prev evs rule: dwellOK.induct) (auto split: if_splits)

lemma dwellOK_gaps300:
  "dwellOK prev evs \<Longrightarrow> \<forall>ev \<in> set evs. snd (snd ev) \<le> 0.7 \<Longrightarrow> gapsAtLeast 300 prev evs"
  by (induction prev evs rule: dwellOK.induct) (auto split: if_splits)

lemma flips_thermal: "ev \<in> set (flips P h p ds) \<Longrightarrow> snd (snd ev) \<in> d_thermal ` set ds"
  by (induction ds arbitrary: p) (auto simp add: Let_def split: if_splits)

text \<open>
  Claim C5, as amended. Whatever the clock readings, velocities, positions, neighbour
  counts and thermal energies at the successive state updates, a flip to liquid comes at
  least 300 ms after the particle's previous flip, and a flip to gas at least 300 ms after
  it, or at least 150 ms when the thermal energy is above 0.7 at that moment. So two
  consecutive flips are always at least 150 ms apart, and at least 300 ms apart when the
  thermal energy never exceeds 0.7.
\<close>

theorem dwell_time_between_flips:
  "dwellOK (lastStateChange p) (flips P h p ds) \<and>
   gapsAtLeast 150 (lastStateChange p) (flips P h p ds) \<and>
   ((\<forall>d \<in> set ds. d_thermal d \<le> 0.7) \<longrightarrow>
      gapsAtLeast 300 (lastStateChange p) (flips P h p ds))"
proof -
  have a: "dwellOK (lastStateChange p) (flips P h p ds)" by (rule flips_dwellOK)
  have b: "gapsAtLeast 150 (lastStateChange p) (flips P h p ds)"
    using a by (rule dwellOK_gaps150)
  have c: "gapsAtLeast 300 (lastStateChange p) (flips P h p ds)"
    if "\<forall>d \<in> set ds. d_thermal d \<le> 0.7"
  proof (rule dwellOK_gaps300 [OF a], rule ballI)
    fix ev assume "ev \<in> set (flips P h p ds)"
    then have "snd (snd ev) \<in> d_thermal ` set ds" by (rule flips_thermal)
    then show "snd (snd ev) \<le> 0.7" using that by auto
  qed
  show ?thesis using a b c by blast
qed

lemma flips_example:
  "flips honey 420 gasParticle [coolSlow, hotFast] = [(1000, Liquid, 0), (1150, Gas, 0.8)]"
  by (simp add: gasParticle_def coolSlow_def hotFast_def makeParticle_def driven_def
      classify_def honey_def Let_def jsor_def)

text \<open>
  Claim C5 as stated fails: a gas particle condenses at 1000 ms and, driven hot
  (thermal energy 0.8) and fast, is gas again at 1150 ms, 150 ms later.
\<close>

theorem dwell_time_counterexample:
  "flips honey 420 gasParticle [coolSlow, hotFast] = [(1000, Liquid, 0), (1150, Gas, 0.8)] \<and>
   \<not> gapsAtLeast 300 (lastStateChange gasParticle) (flips honey 420 gasParticle [coolSlow, hotFast])"
proof -
  have "\<not> gapsAtLeast 300 (lastStateChange gasParticle) [(1000, Liquid, 0), (1150, Gas, 0.8)]"
    by simp
  then show ?thesis unfolding flips_example by simp
qed

theorem dwell_time_between_flips_witness:
  "d_thermal coolSlow \<le> 0.7 \<and>
   flips honey 420 gasParticle [coolSlow] = [(1000, Liquid, 0)] \<and>
   gapsAtLeast 300 (lastStateChange gasParticle) (flips honey 420 gasParticle [coolSlow])"
proof -
  have h: "\<forall>d \<in> set [coolSlow]. d_thermal d \<le> 0.7" by (simp add: coolSlow_def)
  have f: "flips honey 420 gasParticle [coolSlow] = [(1000, Liquid, 0)]"
    by (simp add: gasParticle_def coolSlow_def makeParticle_def driven_def
      classify_def honey_def Let_def jsor_def)
  have c: "d_thermal coolSlow \<le> 0.7" by (simp add: coolSlow_def)
  show ?thesis
    using dwell_time_between_flips [of gasParticle honey 420 "[coolSlow]"] h f c by blast
qed

subsection \<open>Frame lemmas: what the step leaves unchanged\<close>

lemma shape_upd:
  "shape (p\<lparr> pos := x \<rparr>) = shape p" "shape (p\<lparr> vel := x \<rparr>) = shape p"
  "shape (p\<lparr> acc := x \<rparr>) = shape p" "shape (p\<lparr> state := ph \<rparr>) = shape p"
  "shape (p\<lparr> gasUntil := t \<rparr>) = shape p" "shape (p\<lparr> localNeighbors := n \<rparr>) = shape p"
  "shape (p\<lparr> thermalEnergy := t \<rparr>) = shape p" "shape (p\<lparr> lastStateChange := t \<rparr>) = shape p"
  by (simp_all add: shape_def)

lemma frame_let_particle:
  fixes g :: "particle \<Rightarrow> 'a" and a :: particle
  assumes "g a = r" and "\<And>x. g x = r \<Longrightarrow> g (fst (f x)) = r"
  shows "g (fst (Let a f)) = r"
  using assms by (simp add: Let_def)

lemma frame_let:
  assumes "\<And>x. g (fst (f x)) = r"
  shows "g (fst (Let a f)) = r"
  using assms by (simp add: Let_def)

lemma frame_prod:
  assumes "\<And>a b. g (fst (f a b)) = r"
  shows "g (fst (case_prod f ab)) = r"
  using assms by (simp add: split_def)

lemma frame_if:
  assumes "g (fst x) = r" and "g (fst y) = r"
  shows "g (fst (if c then x else y)) = r"
  using assms by simp

lemmas frame_shape = frame_let_particle [where g = shape] frame_let [where g = shape]
  frame_prod [where g = shape] frame_if [where g = shape]

lemma map_shape_update:
  assumes "shape x = shape (ps ! i)"
  shows "map shape (ps[i := x]) = map shape ps"
proof (cases "i < length ps")
  case True
  then show ?thesis using assms by (simp add: map_update list_update_same_conv)
next
  case False
  then have "ps[i := x] = ps" by (simp add: not_less list_update_beyond)
  then show ?thesis by simp
qed

lemma map_shape_update2:
  assumes "shape x = shape (ps ! i)" and "shape y = shape (ps ! j)"
  shows "map shape (ps[i := x, j := y]) = map shape ps"
proof -
  have "shape y = shape (ps[i := x] ! j)"
  proof (cases "i < length ps \<and> j = i")
    case True
    then show ?thesis using assms by simp
  next
    case False
    then have "ps[i := x] ! j = ps ! j"
      by (cases "i < length ps") (auto simp add: not_less list_update_beyond)
    then show ?thesis using assms by simp
  qed
  then have "map shape (ps[i := x, j := y]) = map shape (ps[i := x])"
    by (rule map_shape_update)
  then show ?thesis using map_shape_update [OF assms(1)] by simp
qed

lemma forEachEnv_map_inv:
  assumes "\<And>p e. g (fst (f p e)) = g p"
  shows "map g (fst (forEachEnv f ps e)) = map g ps"
  by (induction ps arbitrary: e) (simp_all add: split_def Let_def assms)

lemma fold_inv:
  assumes "\<And>x s. P s \<Longrightarrow> P (f x s)" and "P s"
  shows "P (fold f xs s)"
  using assms(2) by (induction xs arbitrary: s) (simp_all add: assms(1))

lemma funpow_inv:
  assumes "\<And>s. P s \<Longrightarrow> P (f s)" and "P s"
  shows "P ((f ^^ n) s)"
  by (induction n) (simp_all add: assms)

lemma handleWalls_shape: "shape (handleWalls w h p) = shape p"
  by (simp add: handleWalls_def Let_def shape_upd)

lemma classify_shape: "shape (classify P h t p) = shape p"
  by (simp add: classify_def Let_def shape_upd)

lemma classify_pos: "pos (classify P h t p) = pos p"
  by (simp add: classify_def Let_def)

lemma dissipate_shape: "shape (dissipate dt p) = shape p"
  by (simp add: dissipate_def Let_def shape_upd)

lemma dragKick_shape: "shape (fst (dragKick g k p e)) = shape p"
  by (simp add: dragKick_def Let_def split_def shape_upd)

lemma integrate_shape: "shape (fst (integrate w h dt p e)) = shape p"
  by (simp add: integrate_def Let_def split_def handleWalls_shape shape_upd)

lemma heatInside_shape: "shape (fst (heatInside aH hi dt p e)) = shape p"
  unfolding heatInside_def
  by (rule frame_shape | simp add: shape_upd)+

lemma heatOutside_shape: "shape (fst (heatOutside dt p e)) = shape p"
  unfolding heatOutside_def
  by (rule frame_shape | simp add: shape_upd)+

lemma heatParticle_shape: "shape (fst (heatParticle s dt p e)) = shape p"
  by (simp add: heatParticle_def Let_def heatInside_shape heatOutside_shape)

lemma positionCorrection_shape:
  "shape (fst (positionCorrection h nx ny ov ab)) = shape (fst ab)"
  "shape (snd (positionCorrection h nx ny ov ab)) = shape (snd ab)"
  by (simp_all add: positionCorrection_def Let_def split_def shape_upd)

lemma safetyCorrection_shape:
  "shape (fst (safetyCorrection md ab)) = shape (fst ab)"
  "shape (snd (safetyCorrection md ab)) = shape (snd ab)"
  by (simp_all add: safetyCorrection_def Let_def split_def shape_upd)

lemma normalImpulse_shape:
  "shape (fst (normalImpulse j nx ny ab)) = shape (fst ab)"
  "shape (snd (normalImpulse j nx ny ab)) = shape (snd ab)"
  by (simp_all add: normalImpulse_def Let_def split_def shape_upd)

lemma frictionImpulse_shape:
  "shape (fst (frictionImpulse mu j nx ny ab)) = shape (fst ab)"
  "shape (snd (frictionImpulse mu j nx ny ab)) = shape (snd ab)"
  by (simp_all add: frictionImpulse_def Let_def split_def shape_upd)

lemma thermalConduction_shape:
  "shape (fst (thermalConduction ab)) = shape (fst ab)"
  "shape (snd (thermalConduction ab)) = shape (snd ab)"
  by (simp_all add: thermalConduction_def Let_def split_def shape_upd)

lemma collisionImpulse_shape:
  "shape (fst (collisionImpulse nx ny vn ab)) = shape (fst ab)"
  "shape (snd (collisionImpulse nx ny vn ab)) = shape (snd ab)"
  by (simp_all add: collisionImpulse_def Let_def normalImpulse_shape frictionImpulse_shape
      thermalConduction_shape)

lemma collidePair_unfold:
  fixes h ax ay i j ps
  defines "a \<equiv> ps ! i" and "b \<equiv> ps ! j"
  defines "dx \<equiv> fst (pos b) - ax" and "dy \<equiv> snd (pos b) - ay"
  defines "dst \<equiv> jsor (hypot dx dy) 0.000000001"
  defines "minDist \<equiv> jsor (radius a) 3 + jsor (radius b) 3"
  defines "nx \<equiv> dx / dst" and "ny \<equiv> dy / dst"
  defines "ab1 \<equiv> positionCorrection h nx ny (minDist - dst) (a, b)"
  defines "ab2 \<equiv> safetyCorrection minDist ab1"
  defines "vn \<equiv> (fst (vel (snd ab2)) - fst (vel (fst ab2))) * nx
                 + (snd (vel (snd ab2)) - snd (vel (fst ab2))) * ny"
  defines "ab3 \<equiv> (if vn < 0 then collisionImpulse nx ny vn ab2 else ab2)"
  shows "collidePair h ax ay i j ps =
           (if dst < minDist then ps[i := fst ab3, j := snd ab3] else ps)"
  unfolding collidePair_def Let_def ab3_def vn_def ab2_def ab1_def ny_def nx_def minDist_def
    dst_def dy_def dx_def b_def a_def
  by (rule refl)

lemma collidePair_shape: "map shape (collidePair h ax ay i j ps) = map shape ps"
proof -
  let ?a = "ps ! i" and ?b = "ps ! j"
  let ?dx = "fst (pos ?b) - ax" and ?dy = "snd (pos ?b) - ay"
  let ?dist = "jsor (hypot ?dx ?dy) 0.000000001"
  let ?minDist = "jsor (radius ?a) 3 + jsor (radius ?b) 3"
  let ?nx = "?dx / ?dist" and ?ny = "?dy / ?dist"
  let ?ab1 = "positionCorrection h ?nx ?ny (?minDist - ?dist) (?a, ?b)"
  let ?ab2 = "safetyCorrection ?minDist ?ab1"
  let ?vn = "(fst (vel (snd ?ab2)) - fst (vel (fst ?ab2))) * ?nx
                 + (snd (vel (snd ?ab2)) - snd (vel (fst ?ab2))) * ?ny"
  let ?ab3 = "(if ?vn < 0 then collisionImpulse ?nx ?ny ?vn ?ab2 else ?ab2)"
  have r2: "shape (fst ?ab2) = shape ?a" "shape (snd ?ab2) = shape ?b"
    by (simp_all only: safetyCorrection_shape positionCorrection_shape fst_conv snd_conv)
  have r3: "shape (fst ?ab3) = shape ?a" "shape (snd ?ab3) = shape ?b"
    using r2 by (simp_all only: collisionImpulse_shape if_distrib [of fst] if_distrib [of snd]
        if_distrib [of shape] if_cancel)
  have "map shape (ps[i := fst ?ab3, j := snd ?ab3]) = map shape ps"
    using r3 by (rule map_shape_update2)
  then show ?thesis
    by (simp only: collidePair_unfold if_distrib [of "map shape"] if_cancel)
qed

lemma collideCallback_shape:
  "map shape (fst (collideCallback h ax ay i j st)) = map shape (fst st)"
  by (simp add: collideCallback_def Let_def collidePair_shape)

lemma forceCallback_shape: "map shape (forceCallback P dc ax ay i j ps) = map shape ps"
  by (simp add: forceCallback_def Let_def map_shape_update shape_upd)

lemma mframe_let:
  assumes "\<And>x. map g (f x) = r"
  shows "map g (Let a f) = r"
  using assms by (simp add: Let_def)

lemma mframe_if:
  assumes "map g x = r" and "map g y = r"
  shows "map g (if c then x else y) = r"
  using assms by simp

lemma map_shape_cond_vel:
  "map shape (map (\<lambda>p. if c p then p\<lparr> vel := v p \<rparr> else p) ps) = map shape ps"
  by (induction ps) (simp_all add: shape_upd)

lemma thermostat_shape: "map shape (thermostat k ps) = map shape ps"
  unfolding thermostat_def
  by (rule mframe_let mframe_if map_shape_cond_vel refl)+

lemma map_shape_map:
  assumes "\<And>p. shape (f p) = shape p"
  shows "map shape (map f ps) = map shape ps"
  by (induction ps) (simp_all add: assms)

lemma rebuild_fields:
  "cols (rebuild g ps) = cols g" "rows (rebuild g ps) = rows g"
  "cellSize (rebuild g ps) = cellSize g"
proof -
  have "cols (rebuild g ps) = cols g \<and> rows (rebuild g ps) = rows g \<and>
        cellSize (rebuild g ps) = cellSize g"
    unfolding rebuild_def
    by (rule fold_inv [where P = "\<lambda>g'. cols g' = cols g \<and> rows g' = rows g \<and>
          cellSize g' = cellSize g"])
       (simp_all add: insert_def Let_def clear_def)
  then show "cols (rebuild g ps) = cols g" "rows (rebuild g ps) = rows g"
    "cellSize (rebuild g ps) = cellSize g" by simp_all
qed

lemma resolveCollisions_fields:
  "width (resolveCollisions s) = width s" "height (resolveCollisions s) = height s"
  "params (resolveCollisions s) = params s" "gravityOn (resolveCollisions s) = gravityOn s"
  "heatingOn (resolveCollisions s) = heatingOn s" "heatAccel (resolveCollisions s) = heatAccel s"
  "lastThermoMs (resolveCollisions s) = lastThermoMs s"
  by (simp_all add: resolveCollisions_def Let_def)

lemma resolveCollisions_shape:
  "map shape (particles (resolveCollisions s)) = map shape (particles s)"
proof -
  let ?P = "\<lambda>st :: particle list \<times> (nat \<times> nat) set. map shape (fst st) = map shape (particles s)"
  have inner: "?P (fold (collideCallback h ax ay i) js st)" if "?P st" for h ax ay i js st
    by (rule fold_inv [where P = ?P]) (simp_all add: collideCallback_shape that)
  have "?P (fold (\<lambda>i st.
                let a = fst st ! i;
                    ax = fst (pos a);
                    ay = snd (pos a)
                in fold (collideCallback (height s) ax ay i)
                     (forNeighbors (rebuild (grid s) (particles s)) ax ay 16) st)
              [0..<length (particles s)] (particles s, {}))"
    by (rule fold_inv [where P = ?P]) (simp_all add: Let_def inner)
  then show ?thesis by (simp add: resolveCollisions_def Let_def)
qed

lemma collisionPass_fields:
  "width (collisionPass s) = width s" "height (collisionPass s) = height s"
  "params (collisionPass s) = params s" "gravityOn (collisionPass s) = gravityOn s"
  "heatingOn (collisionPass s) = heatingOn s" "heatAccel (collisionPass s) = heatAccel s"
  "lastThermoMs (collisionPass s) = lastThermoMs s"
  by (simp_all add: collisionPass_def Let_def resolveCollisions_fields)

lemma collisionPass_particles:
  "particles (collisionPass s) =
     map (handleWalls (width s) (height s)) (particles (resolveCollisions s))"
  by (simp add: collisionPass_def Let_def resolveCollisions_fields)

lemma collisionPass_shape:
  "map shape (particles (collisionPass s)) = map shape (particles s)"
  by (simp add: collisionPass_particles comp_def handleWalls_shape resolveCollisions_shape)

lemma computeForces_fields:
  "width (fst (computeForces dt se)) = width (fst se)"
  "height (fst (computeForces dt se)) = height (fst se)"
  "params (fst (computeForces dt se)) = params (fst se)"
  "gravityOn (fst (computeForces dt se)) = gravityOn (fst se)"
  "heatingOn (fst (computeForces dt se)) = heatingOn (fst se)"
  "heatAccel (fst (computeForces dt se)) = heatAccel (fst se)"
  by (simp_all add: computeForces_def Let_def split_def)

lemma pairForces_shape: "map shape (pairForces P g ps) = map shape ps"
proof -
  let ?ps0 = "map (\<lambda>p. p\<lparr> acc := (0, 0), localNeighbors := 0 \<rparr>) ps"
  let ?Q = "\<lambda>ps' :: particle list. map shape ps' = map shape ?ps0"
  have inner: "?Q (fold (forceCallback P d ax ay i) js ps')" if "?Q ps'" for d ax ay i js ps'
    by (rule fold_inv [where P = ?Q]) (simp_all add: forceCallback_shape that)
  have "?Q (fold (\<lambda>i ps.
           let a = ps ! i;
               ax = fst (pos a);
               ay = snd (pos a);
               densityCut = 2.4 * sigma P
           in fold (forceCallback P densityCut ax ay i) (forNeighbors g ax ay 28) ps)
         [0..<length ?ps0] ?ps0)"
    by (rule fold_inv [where P = ?Q]) (simp_all add: Let_def inner)
  moreover have "map shape ?ps0 = map shape ps"
    by (induction ps) (simp_all add: shape_upd)
  ultimately show ?thesis by (simp add: pairForces_def Let_def)
qed

lemma computeForces_shape:
  "map shape (particles (fst (computeForces dt se))) = map shape (particles (fst se))"
  by (simp add: computeForces_def Let_def split_def thermostat_shape pairForces_shape
      forEachEnv_map_inv [where g = shape, OF dragKick_shape])

lemma handleWalls_inside:
  assumes "0 < radius p" and "2 * radius p < w" and "2 * radius p < h"
  shows "radius p \<le> fst (pos (handleWalls w h p)) \<and>
         fst (pos (handleWalls w h p)) \<le> w - radius p \<and>
         radius p \<le> snd (pos (handleWalls w h p)) \<and>
         snd (pos (handleWalls w h p)) \<le> h - radius p"
  using assms by (simp add: handleWalls_def Let_def jsor_def)

lemma fits_cong:
  assumes "map shape (particles s') = map shape (particles s)"
    and "width s' = width s" and "height s' = height s"
  shows "fits s' = fits s"
proof -
  let ?Q = "\<lambda>rm. 0 < snd rm \<and> 0 < fst rm \<and> 2 * fst rm < width s \<and> 2 * fst rm < height s"
  have "shape ` set (particles s') = shape ` set (particles s)"
    using assms(1) by (metis set_map)
  then have "(\<forall>rm \<in> shape ` set (particles s'). ?Q rm) = (\<forall>rm \<in> shape ` set (particles s). ?Q rm)"
    by simp
  then show ?thesis by (simp add: fits_def assms(2,3) shape_def)
qed

lemma collisionPass_inDomain:
  assumes "fits s"
  shows "inDomain (collisionPass s)"
proof -
  have f: "fits (resolveCollisions s)"
    using assms fits_cong [of "resolveCollisions s" s]
    by (simp add: resolveCollisions_shape resolveCollisions_fields)
  show ?thesis
    unfolding inDomain_def collisionPass_particles collisionPass_fields
  proof
    fix q assume "q \<in> set (map (handleWalls (width s) (height s)) (particles (resolveCollisions s)))"
    then obtain p where p: "p \<in> set (particles (resolveCollisions s))"
      and q: "q = handleWalls (width s) (height s) p" by auto
    have "0 < radius p \<and> 2 * radius p < width s \<and> 2 * radius p < height s"
      using f p by (simp add: fits_def resolveCollisions_fields)
    moreover have "radius q = radius p"
      using handleWalls_shape [of "width s" "height s" p] by (simp add: q shape_def)
    ultimately show "radius q \<le> fst (pos q) \<and> fst (pos q) \<le> width s - radius q \<and>
               radius q \<le> snd (pos q) \<and> snd (pos q) \<le> height s - radius q"
      using handleWalls_inside [of p "width s" "height s"] by (simp add: q)
  qed
qed

lemma collisionPass_fits: "fits s \<Longrightarrow> fits (collisionPass s)"
  using fits_cong [of "collisionPass s" s] by (simp add: collisionPass_shape collisionPass_fields)

lemma collisionPasses_inDomain:
  assumes "fits s"
  shows "inDomain ((collisionPass ^^ 5) s)"
proof -
  have "fits ((collisionPass ^^ 4) s)"
    by (rule funpow_inv [where P = fits]) (simp_all add: collisionPass_fits assms)
  then have "inDomain (collisionPass ((collisionPass ^^ 4) s))"
    by (rule collisionPass_inDomain)
  moreover have "(collisionPass ^^ 5) s = collisionPass ((collisionPass ^^ 4) s)"
    by (simp add: eval_nat_numeral)
  ultimately show ?thesis by simp
qed

lemma collisionPasses_frame:
  "width ((collisionPass ^^ n) s) = width s \<and> height ((collisionPass ^^ n) s) = height s \<and>
   params ((collisionPass ^^ n) s) = params s \<and>
   map shape (particles ((collisionPass ^^ n) s)) = map shape (particles s)"
  by (rule funpow_inv [where P = "\<lambda>s'. width s' = width s \<and> height s' = height s \<and>
        params s' = params s \<and> map shape (particles s') = map shape (particles s)"])
     (simp_all add: collisionPass_fields collisionPass_shape)

lemma classify_inDomain:
  assumes "inDomain s"
  shows "inDomain (s\<lparr> particles := map (classify P h t) (particles s) \<rparr>)"
  using assms classify_shape [of P h t]
  by (auto simp add: inDomain_def classify_pos shape_def)

lemma substep_shape:
  "\<exists>s4 t. fst (substep dtStep se) =
      (let s5 = (collisionPass ^^ 5) s4
       in s5\<lparr> particles := map (classify (params s5) (height s5) t) (particles s5) \<rparr>) \<and>
     width s4 = width (fst se) \<and> height s4 = height (fst se) \<and>
     map shape (particles s4) = map shape (particles (fst se))"
proof -
  let ?s1 = "fst (computeForces dtStep se)"
  let ?e1 = "snd (computeForces dtStep se)"
  let ?ps1 = "if gravityOn ?s1
      then map (\<lambda>p. p\<lparr> acc := (fst (acc p), snd (acc p) + 900) \<rparr>) (particles ?s1)
      else particles ?s1"
  let ?pe2 = "if heatingOn ?s1 then forEachEnv (heatParticle ?s1 dtStep) ?ps1 ?e1
      else (map (dissipate dtStep) ?ps1, ?e1)"
  let ?ps3 = "if gravityOn ?s1
      then map (\<lambda>p. if state p = Gas
                     then p\<lparr> acc := (fst (acc p), snd (acc p) - 300) \<rparr> else p) (fst ?pe2)
      else fst ?pe2"
  let ?pe4 = "forEachEnv (integrate (width ?s1) (height ?s1) dtStep) ?ps3 (snd ?pe2)"
  let ?s4 = "?s1\<lparr> particles := fst ?pe4 \<rparr>"
  let ?t = "fst (performanceNow (snd ?pe4))"
  have eq: "fst (substep dtStep se) =
      (let s5 = (collisionPass ^^ 5) ?s4
       in s5\<lparr> particles := map (classify (params s5) (height s5) ?t) (particles s5) \<rparr>)"
    unfolding substep_def Let_def split_def fst_conv snd_conv by (rule refl)
  have r1: "map shape ?ps1 = map shape (particles (fst se))"
    by (simp add: comp_def computeForces_shape shape_upd)
  have r2: "map shape (fst ?pe2) = map shape ?ps1"
    by (simp add: comp_def dissipate_shape shape_upd
        forEachEnv_map_inv [where g = shape, OF heatParticle_shape])
  have r3: "map shape ?ps3 = map shape (fst ?pe2)"
    by (simp add: comp_def if_distrib [of shape] shape_upd cong: if_cong)
  have r4: "map shape (fst ?pe4) = map shape ?ps3"
    by (rule forEachEnv_map_inv) (rule integrate_shape)
  have "width ?s4 = width (fst se) \<and> height ?s4 = height (fst se) \<and>
     map shape (particles ?s4) = map shape (particles (fst se))"
    using r1 r2 r3 r4 by (simp add: computeForces_fields)
  then show ?thesis using eq by blast
qed

lemma substep_map_shape:
  "map shape (particles (fst (substep dtStep se))) = map shape (particles (fst se)) \<and>
   width (fst (substep dtStep se)) = width (fst se) \<and>
   height (fst (substep dtStep se)) = height (fst se)"
proof -
  obtain s4 t where eq: "fst (substep dtStep se) =
      (let s5 = (collisionPass ^^ 5) s4
       in s5\<lparr> particles := map (classify (params s5) (height s5) t) (particles s5) \<rparr>)"
    and w: "width s4 = width (fst se)" and h: "height s4 = height (fst se)"
    and r: "map shape (particles s4) = map shape (particles (fst se))"
    using substep_shape [of dtStep se] by blast
  let ?s5 = "(collisionPass ^^ 5) s4"
  have fr: "width ?s5 = width s4 \<and> height ?s5 = height s4 \<and>
            map shape (particles ?s5) = map shape (particles s4)"
    using collisionPasses_frame [of 5 s4] by simp
  have "map shape (map (classify (params ?s5) (height ?s5) t) (particles ?s5))
        = map shape (particles ?s5)"
    by (simp add: comp_def classify_shape)
  then show ?thesis using fr w h r by (simp add: eq Let_def)
qed

lemma substep_fits_inDomain:
  assumes "fits (fst se)"
  shows "fits (fst (substep dtStep se)) \<and> inDomain (fst (substep dtStep se))"
proof -
  obtain s4 t where eq: "fst (substep dtStep se) =
      (let s5 = (collisionPass ^^ 5) s4
       in s5\<lparr> particles := map (classify (params s5) (height s5) t) (particles s5) \<rparr>)"
    and w: "width s4 = width (fst se)" and h: "height s4 = height (fst se)"
    and r: "map shape (particles s4) = map shape (particles (fst se))"
    using substep_shape [of dtStep se] by blast
  let ?s5 = "(collisionPass ^^ 5) s4"
  let ?s6 = "?s5\<lparr> particles := map (classify (params ?s5) (height ?s5) t) (particles ?s5) \<rparr>"
  have f4: "fits s4" using assms fits_cong [OF r w h] by simp
  have a: "fits (fst (substep dtStep se))"
    using assms substep_map_shape [of dtStep se]
      fits_cong [of "fst (substep dtStep se)" "fst se"] by simp
  have "inDomain ?s5" using f4 by (rule collisionPasses_inDomain)
  then have b: "inDomain ?s6" by (rule classify_inDomain)
  show ?thesis using a b by (simp add: eq Let_def)
qed

lemma substepCount_pos: "1 \<le> substepCount s dt"
proof -
  have "1 \<le> min 12 (max 2 x)" for x :: int by simp
  then show ?thesis unfolding substepCount_def Let_def by (simp only: split: if_split) simp
qed

lemma step_map_shape:
  "map shape (particles (fst (step dt se))) = map shape (particles (fst se)) \<and>
   width (fst (step dt se)) = width (fst se) \<and> height (fst (step dt se)) = height (fst se)"
proof -
  have "map shape (particles (fst ((substep d ^^ n) se))) = map shape (particles (fst se)) \<and>
        width (fst ((substep d ^^ n) se)) = width (fst se) \<and>
        height (fst ((substep d ^^ n) se)) = height (fst se)" for d n
    by (rule funpow_inv [where P = "\<lambda>x. map shape (particles (fst x)) = map shape (particles (fst se)) \<and>
          width (fst x) = width (fst se) \<and> height (fst x) = height (fst se)"])
       (simp_all add: substep_map_shape)
  then show ?thesis by (simp add: step_def Let_def)
qed

lemma step_inDomain:
  assumes "fits (fst se)"
  shows "inDomain (fst (step dt se))"
proof -
  let ?n = "nat (substepCount (fst se) dt)"
  let ?f = "substep (dt / real_of_int (substepCount (fst se) dt))"
  have "0 < ?n" using substepCount_pos [of "fst se" dt] by simp
  then obtain k where k: "?n = Suc k" by (cases ?n) simp_all
  have "fits (fst ((?f ^^ k) se))"
    by (rule funpow_inv [where P = "\<lambda>x. fits (fst x)"])
       (simp_all add: substep_fits_inDomain assms)
  then have "inDomain (fst (?f ((?f ^^ k) se)))"
    using substep_fits_inDomain by blast
  then show ?thesis by (simp add: step_def Let_def k)
qed

subsection \<open>Walls\<close>

text \<open>
  Claim C9. When every particle has a positive mass and a positive radius (the data
  model's invariants) and the domain is more than twice as wide and as high as every
  particle's radius, every call \<open>step(dt)\<close>, for any \<open>dt\<close> and any readings of the clock and
  of the random sources, keeps the particle array (the same number of particles, each
  with the radius and mass it had), keeps the width and height of the domain, and leaves
  every particle inside \<open>[radius, width - radius] \<times> [radius, height - radius]\<close>: each
  substep ends with five collision passes, each of which ends with \<open>handleWalls\<close> on every
  particle, and the state update that follows moves no particle; the loop runs at least
  one substep.
\<close>

theorem step_keeps_particles_inside:
  assumes "fits (fst se)"
  shows "inDomain (fst (step dt se)) \<and>
         map shape (particles (fst (step dt se))) = map shape (particles (fst se)) \<and>
         width (fst (step dt se)) = width (fst se) \<and>
         height (fst (step dt se)) = height (fst se)"
  using step_inDomain [OF assms, of dt] step_map_shape [of dt se] by simp

theorem step_keeps_particles_inside_witness:
  "fits sim0 \<and> inDomain (fst (step (1 / 60) (sim0, env0))) \<and>
   map shape (particles (fst (step (1 / 60) (sim0, env0)))) = [(3, 1)] \<and>
   width (fst (step (1 / 60) (sim0, env0))) = 900 \<and>
   height (fst (step (1 / 60) (sim0, env0))) = 420"
proof -
  have f: "fits (fst (sim0, env0))"
    by (simp add: fits_def sim0_def makeParticle_def)
  have "map shape (particles (fst (sim0, env0))) = [(3, 1)]"
    "width (fst (sim0, env0)) = 900" "height (fst (sim0, env0)) = 420"
    by (simp_all add: sim0_def makeParticle_def shape_def)
  then show ?thesis using step_keeps_particles_inside [OF f, of "1 / 60"] f by simp
qed

subsection \<open>Collision resolver\<close>

lemma defaultShape_NeighborGrid: "defaultShape (NeighborGrid 900 420 24)"
  by (simp add: defaultShape_def NeighborGrid_def Let_def)

lemma rebuild_length: "length (cells (rebuild g ps)) = length (cells g)"
  unfolding rebuild_def
  by (rule fold_inv [where P = "\<lambda>g'. length (cells g') = length (cells g)"])
     (simp_all add: insert_def Let_def clear_def)

lemma rebuild_defaultShape: "defaultShape g \<Longrightarrow> defaultShape (rebuild g ps)"
  by (simp add: defaultShape_def rebuild_fields rebuild_length)

lemma cand_coincident:
  assumes "defaultShape g"
  shows "forNeighbors (rebuild g [makeParticle 100 100 (0, 0), makeParticle 100 100 (0, 0)]) 100 100 16 = [0, 1]"
  using assms
  by (simp add: defaultShape_def forNeighbors_def Let_def rebuild_def insert_def clear_def
      cellIndex_def makeParticle_def)

lemma collidePair_coincident:
  "collidePair 420 100 100 0 (Suc 0) [makeParticle 100 100 (0, 0), makeParticle 100 100 (0, 0)]
   = [makeParticle 100 100 (0, 0), makeParticle 100 100 (0, 0)]"
  by (simp add: collidePair_def Let_def positionCorrection_def safetyCorrection_def jsor_def
      hypot_def makeParticle_def)

lemma makeParticle_fields:
  "pos (makeParticle x y v) = (x, y)" "vel (makeParticle x y v) = v"
  "mass (makeParticle x y v) = 1" "radius (makeParticle x y v) = 3"
  "state (makeParticle x y v) = Liquid" "thermalEnergy (makeParticle x y v) = 0"
  "lastStateChange (makeParticle x y v) = 0" "localNeighbors (makeParticle x y v) = 0"
  by (simp_all add: makeParticle_def)

lemma resolveCollisions_coincident:
  assumes "defaultShape g"
  shows "resolveCollisions (simC\<lparr> grid := g \<rparr>) = simC\<lparr> grid := rebuild g (particles simC) \<rparr>"
proof -
  have c: "forNeighbors (rebuild g [makeParticle 100 100 (0, 0), makeParticle 100 100 (0, 0)])
             100 100 16 = [0, 1]"
    using assms by (rule cand_coincident)
  show ?thesis
    by (simp add: resolveCollisions_def simC_def sim0_def Let_def c collideCallback_def
        collidePair_coincident makeParticle_fields)
qed

lemma resolveCollisions_coincident_run:
  "\<exists>g. defaultShape g \<and> (resolveCollisions ^^ n) simC = simC\<lparr> grid := g \<rparr>"
proof (induction n)
  case 0
  have "simC = simC\<lparr> grid := NeighborGrid 900 420 24 \<rparr>" by (simp add: simC_def sim0_def)
  then show ?case using defaultShape_NeighborGrid by (metis funpow_0)
next
  case (Suc n)
  then obtain g where g: "defaultShape g" "(resolveCollisions ^^ n) simC = simC\<lparr> grid := g \<rparr>"
    by blast
  then have "(resolveCollisions ^^ Suc n) simC = simC\<lparr> grid := rebuild g (particles simC) \<rparr>"
    by (simp add: resolveCollisions_coincident)
  then show ?case using rebuild_defaultShape [OF g(1)] by blast
qed

text \<open>
  Claim C6. Two particles of radius 3 and mass 1 at rest at the same point overlap
  completely. \<open>Math.hypot(0, 0) || 1e-9\<close> gives the distance \<open>1e-9\<close> and the contact normal
  \<open>(0 / 1e-9, 0 / 1e-9) = (0, 0)\<close>, so the position correction and the safety correction
  both move each particle by zero: after five calls of \<open>resolveCollisions\<close> (after any
  number, by \<open>resolveCollisions_coincident_run\<close>) the particles are where they were, at
  separation 0 instead of 6. Their velocities are unchanged too, so the momentum part of
  the claim holds here.
\<close>

theorem coincident_particles_never_separate:
  "particles ((resolveCollisions ^^ 5) simC) = particles simC \<and>
   map pos (particles simC) = [(100, 100), (100, 100)] \<and>
   map vel (particles simC) = [(0, 0), (0, 0)] \<and>
   map radius (particles simC) = [3, 3] \<and> map mass (particles simC) = [1, 1]"
proof -
  obtain g where "(resolveCollisions ^^ 5) simC = simC\<lparr> grid := g \<rparr>"
    using resolveCollisions_coincident_run [of 5] by blast
  then have "particles ((resolveCollisions ^^ 5) simC) = particles simC" by simp
  then show ?thesis by (simp add: simC_def makeParticle_fields)
qed

subsection \<open>A system at rest stays at rest\<close>

lemma fold_inv_mem:
  assumes "\<And>x s. x \<in> set xs \<Longrightarrow> P s \<Longrightarrow> P (f x s)" and "P s"
  shows "P (fold f xs s)"
  using assms by (induction xs arbitrary: s) simp_all

lemma wf_grid_NeighborGrid: "wf_grid (NeighborGrid w h cs)"
  by (simp add: wf_grid_def NeighborGrid_def Let_def)

lemma wf_grid_rebuild: "wf_grid g \<Longrightarrow> wf_grid (rebuild g ps)"
  by (simp add: wf_grid_def rebuild_fields rebuild_length)

lemma cellsBelow_clear: "cellsBelow n (clear g)"
  by (auto simp add: cellsBelow_def clear_def)

lemma cellsBelow_insert:
  assumes "cellsBelow n g" and "i < n"
  shows "cellsBelow n (insert g i p)"
proof -
  let ?idx = "nat (cellIndex g (fst (pos p)) (snd (pos p)))"
  let ?cell = "case cells g ! ?idx of None \<Rightarrow> [] | Some c \<Rightarrow> c"
  have old: "\<forall>k \<in> set ?cell. k < n" if "?idx < length (cells g)"
  proof (cases "cells g ! ?idx")
    case None
    then show ?thesis by simp
  next
    case (Some l)
    have "cells g ! ?idx \<in> set (cells g)" using that by simp
    then show ?thesis using assms(1) Some by (auto simp add: cellsBelow_def)
  qed
  show ?thesis
  proof (cases "?idx < length (cells g)")
    case True
    have "set ((cells g)[?idx := Some (?cell @ [i])]) \<subseteq> Set.insert (Some (?cell @ [i])) (set (cells g))"
      by (rule set_update_subset_insert)
    then show ?thesis
      using assms old [OF True] by (auto simp add: cellsBelow_def insert_def Let_def)
  next
    case False
    then have "(cells g)[?idx := Some (?cell @ [i])] = cells g"
      by (simp add: not_less list_update_beyond)
    then show ?thesis using assms(1) by (simp add: cellsBelow_def insert_def Let_def)
  qed
qed

lemma cellsBelow_rebuild: "cellsBelow (length ps) (rebuild g ps)"
  unfolding rebuild_def
  by (rule fold_inv_mem [where P = "cellsBelow (length ps)"])
     (simp_all add: cellsBelow_insert cellsBelow_clear)

lemma cell_index_bound:
  fixes cx cy c r :: int
  assumes "0 \<le> cx" "cx < c" "0 \<le> cy" "cy < r"
  shows "nat (cy * c + cx) < nat (c * r)"
proof -
  have "(cy + 1) * c \<le> r * c" using assms by (intro mult_right_mono) simp_all
  then have "cy * c + cx < c * r" using assms by (simp add: algebra_simps)
  moreover have "0 \<le> cy * c + cx" using assms by simp
  ultimately show ?thesis by simp
qed

lemma forNeighbors_below:
  assumes "wf_grid g" and "cellsBelow n g" and "j \<in> set (forNeighbors g x y r)"
  shows "j < n"
proof -
  from assms(3) obtain cy cx l where
    rng: "\<not> cx < 0" "\<not> cols g \<le> cx" "\<not> cy < 0" "\<not> rows g \<le> cy"
    and l: "Some l = cells g ! nat (cy * cols g + cx)" "j \<in> set l"
    by (auto simp add: forNeighbors_def Let_def split: if_splits option.splits)
  let ?k = "nat (cy * cols g + cx)"
  have "?k < nat (cols g * rows g)"
    using rng by (intro cell_index_bound) simp_all
  then have "?k < length (cells g)"
    using assms(1) by (simp add: wf_grid_def)
  then have "cells g ! ?k \<in> set (cells g)" by simp
  then have mem: "Some l \<in> set (cells g)" using l(1) by simp
  have "\<forall>i \<in> set l. i < n"
    using assms(2) mem unfolding cellsBelow_def by fastforce
  then show ?thesis using l(2) by blast
qed

lemma forNeighbors_rebuild_below:
  assumes "wf_grid g" and "j \<in> set (forNeighbors (rebuild g ps) x y r)"
  shows "j < length ps"
  using forNeighbors_below [OF wf_grid_rebuild [OF assms(1)] cellsBelow_rebuild assms(2)] .

lemma sig_upd:
  "sig (p\<lparr> acc := x \<rparr>) = sig p" "sig (p\<lparr> state := ph \<rparr>) = sig p"
  "sig (p\<lparr> gasUntil := t \<rparr>) = sig p" "sig (p\<lparr> localNeighbors := n \<rparr>) = sig p"
  "sig (p\<lparr> thermalEnergy := t \<rparr>) = sig p" "sig (p\<lparr> lastStateChange := t \<rparr>) = sig p"
  by (simp_all add: sig_def)

lemma sig_fields:
  assumes "sig p' = sig p"
  shows "pos p' = pos p" "vel p' = vel p" "radius p' = radius p" "mass p' = mass p"
  using assms by (simp_all add: sig_def)

lemma calm_transfer:
  assumes c: "calm w h P ps" and m: "map sig ps' = map sig ps"
    and t: "\<forall>p \<in> set ps'. thermalEnergy p \<le> 0.1"
  shows "calm w h P ps'"
proof -
  have len: "length ps' = length ps" using m by (rule map_eq_imp_length_eq)
  have nth: "sig (ps' ! i) = sig (ps ! i)" if "i < length ps" for i
    using m that len by (metis nth_map)
  have a: "atRestInside w h p'" if "p' \<in> set ps'" for p'
  proof -
    from that obtain i where i: "i < length ps'" "p' = ps' ! i" by (auto simp add: in_set_conv_nth)
    then have s: "sig p' = sig (ps ! i)" using nth len by simp
    have "atRestInside w h (ps ! i)" using c i len by (simp add: calm_def)
    then show ?thesis using sig_fields [OF s] t that by (simp add: atRestInside_def)
  qed
  have b: "separated P (ps' ! i) (ps' ! j)" if "i < length ps'" "j < length ps'" "i \<noteq> j" for i j
  proof -
    have "separated P (ps ! i) (ps ! j)" using c that len by (simp add: calm_def)
    then show ?thesis
      using sig_fields [OF nth [of i]] sig_fields [OF nth [of j]] that len
      by (simp add: separated_def)
  qed
  show ?thesis using a b by (simp add: calm_def)
qed

lemma vAdd_zero: "vAdd a (0, 0) = a"
  by (simp add: vAdd_def)

lemma pairForce_zero:
  assumes "2.5 * sigma P < vLen rVec" "2.2 * sigma P < vLen rVec" "1.8 * sigma P < vLen rVec"
  shows "pairForce P sa sb rVec = (0, 0)"
  using assms
  by (simp add: pairForce_def ljForce_beyond hbForce_zero_beyond dipoleForce_zero_beyond
      vMul_def vAdd_def)

lemma handleWalls_id:
  assumes "atRestInside w h p"
  shows "handleWalls w h p = p"
  using assms by (simp add: handleWalls_def Let_def jsor_def atRestInside_def)

lemma dissipate_calm:
  assumes "thermalEnergy p \<le> 0.1" and "0 \<le> dt"
  shows "thermalEnergy (dissipate dt p) \<le> 0.1" "sig (dissipate dt p) = sig p"
    "acc (dissipate dt p) = acc p"
  using assms by (auto simp add: dissipate_def Let_def jsor_def sig_upd max_def)

lemma integrate_id:
  assumes "atRestInside w h p" and "acc p = (0, 0)"
  shows "fst (integrate w h dt p e) = p"
proof -
  have v: "vel p = (0, 0)" and t: "\<not> 0.1 < thermalEnergy p"
    using assms(1) by (simp_all add: atRestInside_def)
  have e: "p\<lparr> vel := (0, 0) \<rparr> = p" using v by simp
  have "fst (integrate w h dt p e) = handleWalls w h (p\<lparr> vel := (0, 0) \<rparr>)"
    using v t assms(2) by (simp add: integrate_def Let_def jsor_def)
  then show ?thesis using handleWalls_id [OF assms(1)] by (simp only: e)
qed

lemma dragKick_id:
  assumes "vel p = (0, 0)"
  shows "fst (dragKick g 0 p e) = p"
  using assms by (simp add: dragKick_def Let_def split_def)

lemma eq_let:
  assumes "\<And>x. f x = r"
  shows "Let a f = r"
  using assms by (simp add: Let_def)

lemma eq_if:
  assumes "x = r" and "y = r"
  shows "(if c then x else y) = r"
  using assms by simp

lemma thermostat_id:
  assumes "\<forall>p \<in> set ps. vel p = (0, 0)"
  shows "thermostat k ps = ps"
proof -
  have leaf: "map (\<lambda>p. if c p then p\<lparr> vel := (fst (vel p) * x, snd (vel p) * x) \<rparr> else p) ps = ps"
    for c and x :: real
    using assms by (intro map_idI) auto
  show ?thesis
    unfolding thermostat_def
    by (rule eq_let eq_if leaf refl)+
qed

lemma classify_calm:
  assumes "thermalEnergy p \<le> 0.1"
  shows "sig (classify P h t p) = sig p \<and> thermalEnergy (classify P h t p) \<le> 0.1"
  using assms
  by (cases "state p")
     (auto simp add: classify_def Let_def jsor_def sig_upd max_def)

lemma collidePair_id:
  assumes "separated P (ps ! i) (ps ! j)" and "0 < radius (ps ! i)" and "0 < radius (ps ! j)"
  shows "collidePair h (fst (pos (ps ! i))) (snd (pos (ps ! i))) i j ps = ps"
proof -
  let ?d = "hypot (fst (pos (ps ! j)) - fst (pos (ps ! i))) (snd (pos (ps ! j)) - snd (pos (ps ! i)))"
  have d: "radius (ps ! i) + radius (ps ! j) \<le> ?d"
    using assms(1) by (simp add: separated_def Let_def vLen_def vSub_def)
  then have "0 < ?d" using assms(2,3) by simp
  then have "jsor ?d 0.000000001 = ?d" by (simp add: jsor_def)
  moreover have "jsor (radius (ps ! i)) 3 + jsor (radius (ps ! j)) 3 = radius (ps ! i) + radius (ps ! j)"
    using assms(2,3) by (simp add: jsor_def)
  ultimately have c: "\<not> jsor ?d 0.000000001 < jsor (radius (ps ! i)) 3 + jsor (radius (ps ! j)) 3"
    using d by simp
  show ?thesis by (simp only: collidePair_unfold c if_False)
qed

lemma forceCallback_far:
  assumes "i \<noteq> j" and "separated P (ps ! i) (ps ! j)"
  shows "\<exists>k. forceCallback P dc (fst (pos (ps ! i))) (snd (pos (ps ! i))) i j ps
             = ps[i := (ps ! i)\<lparr> localNeighbors := k \<rparr>]"
proof -
  let ?r = "(fst (pos (ps ! j)) - fst (pos (ps ! i)), snd (pos (ps ! j)) - snd (pos (ps ! i)))"
  have "2.5 * sigma P < vLen ?r" "2.2 * sigma P < vLen ?r" "1.8 * sigma P < vLen ?r"
    using assms(2) by (simp_all add: separated_def Let_def vSub_def)
  then have z: "pairForce P sa sb ?r = (0, 0)" for sa sb by (rule pairForce_zero)
  have u: "q\<lparr> acc := acc q \<rparr> = q" for q :: particle by simp
  show ?thesis
  proof (cases "hypot (fst ?r) (snd ?r) < dc")
    case True
    then have "forceCallback P dc (fst (pos (ps ! i))) (snd (pos (ps ! i))) i j ps
        = ps[i := (ps ! i)\<lparr> localNeighbors := localNeighbors (ps ! i) + 1 \<rparr>]"
      using assms(1) by (simp add: forceCallback_def Let_def z vAdd_zero)
    then show ?thesis by blast
  next
    case False
    then have "forceCallback P dc (fst (pos (ps ! i))) (snd (pos (ps ! i))) i j ps
        = ps[i := (ps ! i)\<lparr> localNeighbors := localNeighbors (ps ! i) \<rparr>]"
      using assms(1) by (simp add: forceCallback_def Let_def z vAdd_zero)
    then show ?thesis by blast
  qed
qed

lemma forget_fields:
  assumes "forget p' = forget p"
  shows "pos p' = pos p" "vel p' = vel p" "radius p' = radius p" "mass p' = mass p"
    "acc p' = acc p" "thermalEnergy p' = thermalEnergy p"
proof -
  have "pos (forget p') = pos (forget p)" "vel (forget p') = vel (forget p)"
    "radius (forget p') = radius (forget p)" "mass (forget p') = mass (forget p)"
    "acc (forget p') = acc (forget p)" "thermalEnergy (forget p') = thermalEnergy (forget p)"
    using assms by simp_all
  then show "pos p' = pos p" "vel p' = vel p" "radius p' = radius p" "mass p' = mass p"
    "acc p' = acc p" "thermalEnergy p' = thermalEnergy p"
    by (simp_all add: forget_def)
qed

lemma map_forget_nth:
  assumes "map forget ps' = map forget ps" and "i < length ps"
  shows "forget (ps' ! i) = forget (ps ! i)"
proof -
  have "length ps' = length ps" using assms(1) by (rule map_eq_imp_length_eq)
  then show ?thesis using assms by (metis nth_map)
qed

lemma map_forget_update:
  "map forget (ps[i := (ps ! i)\<lparr> localNeighbors := k \<rparr>]) = map forget ps"
proof (cases "i < length ps")
  case True
  have "forget ((ps ! i)\<lparr> localNeighbors := k \<rparr>) = forget (ps ! i)"
    by (simp add: forget_def)
  then show ?thesis using True by (simp add: map_update list_update_same_conv)
next
  case False
  then show ?thesis by (simp add: not_less list_update_beyond)
qed

lemma separated_forget:
  assumes "separated P a b" and "forget a' = forget a" and "forget b' = forget b"
  shows "separated P a' b'"
  using assms(1) forget_fields [OF assms(2)] forget_fields [OF assms(3)]
  by (simp add: separated_def)

lemma forceCallback_forget:
  assumes k: "map forget ps' = map forget ps0"
    and sep: "\<forall>i < length ps0. \<forall>j < length ps0. i \<noteq> j \<longrightarrow> separated P (ps0 ! i) (ps0 ! j)"
    and i: "i < length ps0" and j: "j < length ps0"
  shows "map forget (forceCallback P dc (fst (pos (ps0 ! i))) (snd (pos (ps0 ! i))) i j ps')
         = map forget ps0"
proof (cases "i = j")
  case True
  then show ?thesis using k by (simp add: forceCallback_def)
next
  case False
  have fi: "forget (ps' ! i) = forget (ps0 ! i)" and fj: "forget (ps' ! j) = forget (ps0 ! j)"
    using map_forget_nth [OF k] i j by simp_all
  have "separated P (ps0 ! i) (ps0 ! j)" using sep i j False by simp
  then have s: "separated P (ps' ! i) (ps' ! j)" using fi fj by (rule separated_forget)
  have p: "pos (ps0 ! i) = pos (ps' ! i)" using forget_fields(1) [OF fi] by simp
  obtain n where "forceCallback P dc (fst (pos (ps' ! i))) (snd (pos (ps' ! i))) i j ps'
             = ps'[i := (ps' ! i)\<lparr> localNeighbors := n \<rparr>]"
    using forceCallback_far [OF False s] by blast
  then show ?thesis using k by (simp add: p map_forget_update)
qed

lemma pairForces_forget:
  assumes sep: "\<forall>i < length ps. \<forall>j < length ps. i \<noteq> j \<longrightarrow> separated P (ps ! i) (ps ! j)"
    and cand: "\<And>x y r j. j \<in> set (forNeighbors g x y r) \<Longrightarrow> j < length ps"
  shows "map forget (pairForces P g ps)
         = map forget (map (\<lambda>p. p\<lparr> acc := (0, 0), localNeighbors := 0 \<rparr>) ps)"
proof -
  let ?ps0 = "map (\<lambda>p. p\<lparr> acc := (0, 0), localNeighbors := 0 \<rparr>) ps"
  let ?K = "\<lambda>ps' :: particle list. map forget ps' = map forget ?ps0"
  have len: "length ?ps0 = length ps" by simp
  have sep0: "\<forall>i < length ?ps0. \<forall>j < length ?ps0. i \<noteq> j \<longrightarrow> separated P (?ps0 ! i) (?ps0 ! j)"
    using sep by (simp add: separated_def)
  have inner: "?K (fold (forceCallback P dc (fst (pos (?ps0 ! i))) (snd (pos (?ps0 ! i))) i) js ps')"
    if "?K ps'" "i < length ps" "\<forall>j \<in> set js. j < length ps" for dc i js ps'
    using that(3,1)
  proof (induction js arbitrary: ps')
    case Nil
    then show ?case by simp
  next
    case (Cons j js)
    have "?K (forceCallback P dc (fst (pos (?ps0 ! i))) (snd (pos (?ps0 ! i))) i j ps')"
      using Cons.prems that(2) by (intro forceCallback_forget [OF _ sep0]) simp_all
    then show ?case using Cons by simp
  qed
  have outer: "?K (fold (\<lambda>i ps.
           let a = ps ! i;
               ax = fst (pos a);
               ay = snd (pos a);
               densityCut = 2.4 * sigma P
           in fold (forceCallback P densityCut ax ay i) (forNeighbors g ax ay 28) ps) is ps')"
    if "?K ps'" "\<forall>i \<in> set is. i < length ps" for "is" ps'
    using that(2,1)
  proof (induction "is" arbitrary: ps')
    case Nil
    then show ?case by simp
  next
    case (Cons i "is")
    have i: "i < length ps" using Cons.prems by simp
    have "forget (ps' ! i) = forget (?ps0 ! i)"
      using map_forget_nth [OF Cons.prems(2)] i by simp
    then have p: "pos (ps' ! i) = pos (?ps0 ! i)" by (rule forget_fields)
    have "?K (fold (forceCallback P (2.4 * sigma P) (fst (pos (?ps0 ! i))) (snd (pos (?ps0 ! i))) i)
               (forNeighbors g (fst (pos (?ps0 ! i))) (snd (pos (?ps0 ! i))) 28) ps')"
      using Cons.prems(2) i cand by (intro inner) auto
    then show ?case using Cons by (simp add: Let_def p)
  qed
  have "?K (fold (\<lambda>i ps.
           let a = ps ! i;
               ax = fst (pos a);
               ay = snd (pos a);
               densityCut = 2.4 * sigma P
           in fold (forceCallback P densityCut ax ay i) (forNeighbors g ax ay 28) ps)
         [0..<length ?ps0] ?ps0)"
    by (rule outer) simp_all
  then show ?thesis by (simp add: pairForces_def Let_def)
qed

lemma map_forget_cong:
  assumes "map forget xs = map forget ys" and "\<And>p. f (forget p) = f p"
  shows "map f xs = map f ys"
proof -
  have "map f xs = map f (map forget xs)" by (simp add: comp_def assms(2))
  also have "\<dots> = map f (map forget ys)" by (simp only: assms(1))
  also have "\<dots> = map f ys" by (simp add: comp_def assms(2))
  finally show ?thesis .
qed

lemma forEachEnv_id:
  assumes "\<forall>p \<in> set ps. \<forall>e. fst (f p e) = p"
  shows "fst (forEachEnv f ps e) = ps"
  using assms by (induction ps arbitrary: e) (simp_all add: split_def Let_def)

lemma calm_rest:
  assumes "calm w h P ps" and "p \<in> set ps"
  shows "atRestInside w h p" "vel p = (0, 0)" "thermalEnergy p \<le> 0.1"
  using assms by (simp_all add: calm_def atRestInside_def)

lemma calm_separated:
  assumes "calm w h P ps"
  shows "\<forall>i < length ps. \<forall>j < length ps. i \<noteq> j \<longrightarrow> separated P (ps ! i) (ps ! j)"
  using assms by (simp add: calm_def)

lemma pairForces_calm:
  assumes g: "wf_grid g0" and c: "calm w h P ps"
  defines "ps2 \<equiv> pairForces P (rebuild g0 ps) ps"
  shows "map sig ps2 = map sig ps" "map thermalEnergy ps2 = map thermalEnergy ps"
    "\<forall>p \<in> set ps2. acc p = (0, 0)" "\<forall>p \<in> set ps2. vel p = (0, 0)"
proof -
  let ?zero = "\<lambda>p. p\<lparr> acc := (0, 0), localNeighbors := 0 \<rparr>"
  have k: "map forget ps2 = map forget (map ?zero ps)"
    unfolding ps2_def
    using calm_separated [OF c] forNeighbors_rebuild_below [OF g]
    by (intro pairForces_forget) auto
  have "map sig ps2 = map sig (map ?zero ps)"
    using k by (rule map_forget_cong) (simp add: forget_def sig_upd)
  then show s: "map sig ps2 = map sig ps" by (simp add: comp_def sig_upd)
  have "map thermalEnergy ps2 = map thermalEnergy (map ?zero ps)"
    using k by (rule map_forget_cong) (simp add: forget_def)
  then show "map thermalEnergy ps2 = map thermalEnergy ps" by (simp add: comp_def)
  have "map acc ps2 = map acc (map ?zero ps)"
    using k by (rule map_forget_cong) (simp add: forget_def)
  then have "set (map acc ps2) \<subseteq> {(0, 0)}" by (auto simp add: comp_def)
  then show "\<forall>p \<in> set ps2. acc p = (0, 0)" by auto
  have "set (map vel ps) \<subseteq> {(0, 0)}" using calm_rest(2) [OF c] by auto
  moreover have "map vel ps2 = map vel ps"
  proof -
    have "map (fst \<circ> snd) (map sig ps2) = map (fst \<circ> snd) (map sig ps)" using s by simp
    then show ?thesis by (simp add: comp_def sig_def)
  qed
  ultimately have "set (map vel ps2) \<subseteq> {(0, 0)}" by simp
  then show "\<forall>p \<in> set ps2. vel p = (0, 0)" by auto
qed

lemma computeForces_calm:
  assumes q: "quiet s" and c: "calm (width s) (height s) (params s) (particles s)"
  shows "particles (fst (computeForces dt (s, e)))
           = pairForces (params s) (rebuild (grid s) (particles s)) (particles s)"
    and "quiet (fst (computeForces dt (s, e)))"
proof -
  let ?ps2 = "pairForces (params s) (rebuild (grid s) (particles s)) (particles s)"
  have g: "wf_grid (grid s)" and k: "kT (params s) = 0" using q by (simp_all add: quiet_def)
  have v: "\<forall>p \<in> set ?ps2. vel p = (0, 0)"
    using pairForces_calm(4) [OF g c] .
  have d: "fst (forEachEnv (dragKick (3 / 10) 0) ?ps2 e) = ?ps2"
    using v by (intro forEachEnv_id) (simp add: dragKick_id)
  have t: "thermostat x ?ps2 = ?ps2" for x using v by (rule thermostat_id)
  show "particles (fst (computeForces dt (s, e))) = ?ps2"
    by (simp add: computeForces_def Let_def split_def k jsor_def d t)
  show "quiet (fst (computeForces dt (s, e)))"
    using q by (simp add: computeForces_def Let_def split_def quiet_def wf_grid_rebuild)
qed

lemma resolveCollisions_id:
  assumes g: "wf_grid (grid s)" and c: "calm w h P (particles s)"
  shows "particles (resolveCollisions s) = particles s"
proof -
  let ?ps = "particles s"
  have pair: "collidePair hh (fst (pos (?ps ! i))) (snd (pos (?ps ! i))) i j ?ps = ?ps"
    if "i < length ?ps" "j < length ?ps" "i \<noteq> j" for hh i j
  proof -
    have "separated P (?ps ! i) (?ps ! j)" using calm_separated [OF c] that by simp
    moreover have "0 < radius (?ps ! i)" "0 < radius (?ps ! j)"
      using c that by (simp_all add: calm_def atRestInside_def)
    ultimately show ?thesis by (rule collidePair_id)
  qed
  have inner: "fst (fold (collideCallback hh (fst (pos (?ps ! i))) (snd (pos (?ps ! i))) i) js st) = ?ps"
    if "fst st = ?ps" "i < length ?ps" "\<forall>j \<in> set js. j < length ?ps" for hh i js st
    using that(3,1)
  proof (induction js arbitrary: st)
    case Nil
    then show ?case by simp
  next
    case (Cons j js)
    have "fst (collideCallback hh (fst (pos (?ps ! i))) (snd (pos (?ps ! i))) i j st) = ?ps"
      using Cons.prems that(2) pair [of i j hh]
      by (simp add: collideCallback_def Let_def)
    then show ?case using Cons by simp
  qed
  have outer: "fst (fold (\<lambda>i st.
                let a = fst st ! i;
                    ax = fst (pos a);
                    ay = snd (pos a)
                in fold (collideCallback (height s) ax ay i)
                     (forNeighbors (rebuild (grid s) ?ps) ax ay 16) st) is st) = ?ps"
    if "fst st = ?ps" "\<forall>i \<in> set is. i < length ?ps" for "is" st
    using that(2,1)
  proof (induction "is" arbitrary: st)
    case Nil
    then show ?case by simp
  next
    case (Cons i "is")
    have "fst (fold (collideCallback (height s) (fst (pos (?ps ! i))) (snd (pos (?ps ! i))) i)
             (forNeighbors (rebuild (grid s) ?ps) (fst (pos (?ps ! i))) (snd (pos (?ps ! i))) 16)
             st) = ?ps"
      using Cons.prems forNeighbors_rebuild_below [OF g] by (intro inner) auto
    then show ?case using Cons by (simp add: Let_def)
  qed
  have "fst (fold (\<lambda>i st.
                let a = fst st ! i;
                    ax = fst (pos a);
                    ay = snd (pos a)
                in fold (collideCallback (height s) ax ay i)
                     (forNeighbors (rebuild (grid s) ?ps) ax ay 16) st)
              [0..<length ?ps] (?ps, {})) = ?ps"
    by (rule outer) simp_all
  then show ?thesis by (simp add: resolveCollisions_def Let_def)
qed

lemma substep_quiet_unfold:
  assumes "\<not> gravityOn (fst se)" and "\<not> heatingOn (fst se)"
  shows "fst (substep dtStep se) =
    (let s1 = fst (computeForces dtStep se);
         e1 = snd (computeForces dtStep se);
         pe = forEachEnv (integrate (width s1) (height s1) dtStep)
                (map (dissipate dtStep) (particles s1)) e1;
         s5 = (collisionPass ^^ 5) (s1\<lparr> particles := fst pe \<rparr>);
         t = fst (performanceNow (snd pe))
     in s5\<lparr> particles := map (classify (params s5) (height s5) t) (particles s5) \<rparr>)"
  using assms by (simp add: substep_def Let_def split_def computeForces_fields)

lemma collisionPass_calm:
  assumes "quiet s" and "calm (width s) (height s) (params s) (particles s)"
  shows "particles (collisionPass s) = particles s" and "quiet (collisionPass s)"
proof -
  have g: "wf_grid (grid s)" using assms(1) by (simp add: quiet_def)
  have r: "particles (resolveCollisions s) = particles s"
    using g assms(2) by (rule resolveCollisions_id)
  have "map (handleWalls (width s) (height s)) (particles s) = particles s"
    using calm_rest(1) [OF assms(2)] by (intro map_idI) (simp add: handleWalls_id)
  then show "particles (collisionPass s) = particles s"
    by (simp add: collisionPass_particles r)
  show "quiet (collisionPass s)"
    using assms(1)
    by (simp add: quiet_def collisionPass_def Let_def resolveCollisions_def wf_grid_rebuild)
qed

lemma collisionPasses_calm:
  assumes "quiet s" and "calm (width s) (height s) (params s) (particles s)"
  shows "particles ((collisionPass ^^ n) s) = particles s \<and> quiet ((collisionPass ^^ n) s) \<and>
         width ((collisionPass ^^ n) s) = width s \<and> height ((collisionPass ^^ n) s) = height s \<and>
         params ((collisionPass ^^ n) s) = params s"
proof (rule funpow_inv [where P = "\<lambda>s'. particles s' = particles s \<and> quiet s' \<and>
         width s' = width s \<and> height s' = height s \<and> params s' = params s"])
  fix s'
  assume a: "particles s' = particles s \<and> quiet s' \<and>
         width s' = width s \<and> height s' = height s \<and> params s' = params s"
  then have c: "calm (width s') (height s') (params s') (particles s')" using assms(2) by simp
  show "particles (collisionPass s') = particles s \<and> quiet (collisionPass s') \<and>
         width (collisionPass s') = width s \<and> height (collisionPass s') = height s \<and>
         params (collisionPass s') = params s"
    using a collisionPass_calm [OF _ c] by (simp add: collisionPass_fields)
next
  show "particles s = particles s \<and> quiet s \<and>
         width s = width s \<and> height s = height s \<and> params s = params s"
    using assms(1) by simp
qed

lemma substep_calm:
  assumes q: "quiet s" and c: "calm (width s) (height s) (params s) (particles s)"
    and dt: "0 \<le> dtStep"
  shows "quiet (fst (substep dtStep (s, e))) \<and>
         width (fst (substep dtStep (s, e))) = width s \<and>
         height (fst (substep dtStep (s, e))) = height s \<and>
         params (fst (substep dtStep (s, e))) = params s \<and>
         map sig (particles (fst (substep dtStep (s, e)))) = map sig (particles s) \<and>
         calm (width s) (height s) (params s) (particles (fst (substep dtStep (s, e))))"
proof -
  let ?w = "width s" and ?h = "height s" and ?P = "params s"
  let ?s1 = "fst (computeForces dtStep (s, e))"
  let ?e1 = "snd (computeForces dtStep (s, e))"
  let ?ps2 = "pairForces ?P (rebuild (grid s) (particles s)) (particles s)"
  let ?ps3 = "map (dissipate dtStep) ?ps2"
  have g: "wf_grid (grid s)" using q by (simp add: quiet_def)
  have p1: "particles ?s1 = ?ps2" and q1: "quiet ?s1"
    using computeForces_calm [OF q c] by simp_all
  have f1: "width ?s1 = ?w" "height ?s1 = ?h" "params ?s1 = ?P"
    using computeForces_fields [of dtStep "(s, e)"] by simp_all
  note pf = pairForces_calm [OF g c]
  have c2: "calm ?w ?h ?P ?ps2"
  proof (rule calm_transfer [OF c pf(1)], rule ballI)
    fix p assume "p \<in> set ?ps2"
    then have "thermalEnergy p \<in> set (map thermalEnergy ?ps2)" by simp
    then have "thermalEnergy p \<in> set (map thermalEnergy (particles s))" by (simp only: pf(2))
    then show "thermalEnergy p \<le> 0.1" using calm_rest(3) [OF c] by auto
  qed
  have s3: "map sig ?ps3 = map sig ?ps2"
    using calm_rest(3) [OF c2] dt by (simp add: comp_def dissipate_calm)
  have t3: "\<forall>p \<in> set ?ps3. thermalEnergy p \<le> 0.1"
  proof
    fix p assume "p \<in> set ?ps3"
    then obtain p2 where p2: "p2 \<in> set ?ps2" "p = dissipate dtStep p2" by auto
    show "thermalEnergy p \<le> 0.1"
      unfolding p2(2) using calm_rest(3) [OF c2 p2(1)] dt by (rule dissipate_calm)
  qed
  have c3: "calm ?w ?h ?P ?ps3"
    using c2 s3 t3 by (rule calm_transfer)
  have a3: "\<forall>p \<in> set ?ps3. acc p = (0, 0)"
  proof
    fix p assume "p \<in> set ?ps3"
    then obtain p2 where p2: "p2 \<in> set ?ps2" "p = dissipate dtStep p2" by auto
    have "acc p = acc p2"
      unfolding p2(2) using calm_rest(3) [OF c2 p2(1)] dt by (rule dissipate_calm)
    then show "acc p = (0, 0)" using pf(3) p2(1) by simp
  qed
  have i3: "fst (forEachEnv (integrate ?w ?h dtStep) ?ps3 x) = ?ps3" for x
    using calm_rest(1) [OF c3] a3 by (intro forEachEnv_id) (simp add: integrate_id)
  let ?s4 = "?s1\<lparr> particles := ?ps3 \<rparr>"
  have q4: "quiet ?s4" using q1 by (simp add: quiet_def)
  have c4: "calm (width ?s4) (height ?s4) (params ?s4) (particles ?s4)"
    using c3 f1 by simp
  let ?s5 = "(collisionPass ^^ 5) ?s4"
  note cp = collisionPasses_calm [OF q4 c4, of 5]
  have p5: "particles ?s5 = ?ps3" and q5: "quiet ?s5"
    and f5: "width ?s5 = ?w" "height ?s5 = ?h" "params ?s5 = ?P"
    using cp f1 by simp_all
  have "\<not> gravityOn (fst (s, e))" "\<not> heatingOn (fst (s, e))"
    using q by (simp_all add: quiet_def)
  then obtain t where
    eq: "fst (substep dtStep (s, e)) = ?s5\<lparr> particles := map (classify ?P ?h t) ?ps3 \<rparr>"
    using substep_quiet_unfold [of "(s, e)" dtStep]
    by (simp add: Let_def p1 f1 i3 p5 f5)
  have s6: "map sig (map (classify ?P ?h t) ?ps3) = map sig ?ps3"
    using calm_rest(3) [OF c3] by (simp add: comp_def classify_calm)
  have t6: "\<forall>p \<in> set (map (classify ?P ?h t) ?ps3). thermalEnergy p \<le> 0.1"
  proof
    fix p assume "p \<in> set (map (classify ?P ?h t) ?ps3)"
    then obtain p3 where p3: "p3 \<in> set ?ps3" "p = classify ?P ?h t p3" by auto
    show "thermalEnergy p \<le> 0.1"
      unfolding p3(2) using classify_calm [OF calm_rest(3) [OF c3 p3(1)]] by blast
  qed
  have c6: "calm ?w ?h ?P (map (classify ?P ?h t) ?ps3)"
    using c3 s6 t6 by (rule calm_transfer)
  let ?s6 = "?s5\<lparr> particles := map (classify ?P ?h t) ?ps3 \<rparr>"
  have pp: "particles ?s6 = map (classify ?P ?h t) ?ps3" by simp
  have r1: "quiet ?s6" using q5 by (simp add: quiet_def)
  have r2: "width ?s6 = ?w" "height ?s6 = ?h" "params ?s6 = ?P" using f5 by simp_all
  have r3: "map sig (particles ?s6) = map sig (particles s)"
    unfolding pp using s6 s3 pf(1) by (simp only:)
  have r4: "calm ?w ?h ?P (particles ?s6)" unfolding pp by (rule c6)
  show ?thesis unfolding eq using r1 r2 r3 r4 by blast
qed

lemma step_calm:
  assumes q: "quiet s" and c: "calm (width s) (height s) (params s) (particles s)"
    and dt: "0 \<le> dt"
  shows "quiet (fst (step dt (s, e))) \<and>
         width (fst (step dt (s, e))) = width s \<and>
         height (fst (step dt (s, e))) = height s \<and>
         params (fst (step dt (s, e))) = params s \<and>
         map sig (particles (fst (step dt (s, e)))) = map sig (particles s) \<and>
         calm (width s) (height s) (params s) (particles (fst (step dt (s, e))))"
proof -
  let ?I = "\<lambda>x :: sim \<times> env. quiet (fst x) \<and> width (fst x) = width s \<and>
      height (fst x) = height s \<and> params (fst x) = params s \<and>
      map sig (particles (fst x)) = map sig (particles s) \<and>
      calm (width s) (height s) (params s) (particles (fst x))"
  let ?d = "dt / real_of_int (substepCount (fst (s, e)) dt)"
  have "0 < substepCount (fst (s, e)) dt"
    using substepCount_pos [of "fst (s, e)" dt] by simp
  then have d: "0 \<le> ?d" using dt by simp
  have "?I ((substep ?d ^^ n) (s, e))" for n
  proof (rule funpow_inv [where P = ?I])
    fix x :: "sim \<times> env"
    assume a: "?I x"
    then have "calm (width (fst x)) (height (fst x)) (params (fst x)) (particles (fst x))"
      by simp
    then show "?I (substep ?d x)"
      using substep_calm [of "fst x" ?d "snd x"] a d by simp
  next
    show "?I (s, e)" using q c by simp
  qed
  then show ?thesis by (simp add: step_def Let_def)
qed

lemma steps_calm:
  assumes q: "quiet s" and c: "calm (width s) (height s) (params s) (particles s)"
    and dts: "\<forall>dt \<in> set dts. 0 \<le> dt"
  shows "map sig (particles (fst (steps dts (s, e)))) = map sig (particles s)"
proof -
  let ?I = "\<lambda>x :: sim \<times> env. quiet (fst x) \<and> width (fst x) = width s \<and>
      height (fst x) = height s \<and> params (fst x) = params s \<and>
      map sig (particles (fst x)) = map sig (particles s) \<and>
      calm (width s) (height s) (params s) (particles (fst x))"
  have "?I (fold step dts (s, e))"
  proof (rule fold_inv_mem [where P = ?I])
    fix dt and x :: "sim \<times> env"
    assume m: "dt \<in> set dts" and a: "?I x"
    then have "calm (width (fst x)) (height (fst x)) (params (fst x)) (particles (fst x))"
      by simp
    then show "?I (step dt x)"
      using step_calm [of "fst x" dt "snd x"] a m dts by simp
  next
    show "?I (s, e)" using q c by simp
  qed
  then show ?thesis by (simp add: steps_def)
qed

lemma separated_sym: "separated P a b \<Longrightarrow> separated P b a"
proof -
  have "vLen (vSub (pos a) (pos b)) = vLen (vSub (pos b) (pos a))"
    using vLen_neg [of "vSub (pos b) (pos a)"] by (simp add: vSub_def)
  then show "separated P a b \<Longrightarrow> separated P b a"
    by (simp add: separated_def add.commute)
qed

lemma calm_pair:
  assumes "atRestInside w h a" "atRestInside w h b" "separated P a b"
  shows "calm w h P [a, b]"
proof -
  have "separated P ([a, b] ! i) ([a, b] ! j)" if "i < 2" "j < 2" "i \<noteq> j" for i j
  proof -
    from that consider "i = 0 \<and> j = 1" | "i = 1 \<and> j = 0" by linarith
    then show ?thesis
      using assms(3) separated_sym [OF assms(3)] by cases simp_all
  qed
  then show ?thesis using assms(1,2) by (simp add: calm_def)
qed

text \<open>
  Claim C7, as amended. With gravity and heating off and \<open>kT = 0\<close>, two particles at rest
  whose distance exceeds the three force cutoffs, which do not overlap, lie inside the
  walls with the margin of their radius and carry a thermal energy of at most 0.1, keep
  their positions exactly, and stay at rest, over any number of steps with \<open>dt \<ge> 0\<close>,
  whatever the clock and the random sources return.
\<close>

theorem two_particles_at_rest_never_move:
  assumes "quiet s" and "particles s = [a, b]"
    and "atRestInside (width s) (height s) a" and "atRestInside (width s) (height s) b"
    and "separated (params s) a b" and "\<forall>dt \<in> set dts. 0 \<le> dt"
  shows "map pos (particles (fst (steps dts (s, e)))) = [pos a, pos b] \<and>
         map vel (particles (fst (steps dts (s, e)))) = [(0, 0), (0, 0)]"
proof -
  have c: "calm (width s) (height s) (params s) (particles s)"
    unfolding assms(2) using assms(3,4,5) by (rule calm_pair)
  have m: "map sig (particles (fst (steps dts (s, e)))) = map sig (particles s)"
    using assms(1) c assms(6) by (rule steps_calm)
  have "map fst (map sig (particles (fst (steps dts (s, e))))) = map fst (map sig (particles s))"
    by (simp only: m)
  then have p: "map pos (particles (fst (steps dts (s, e)))) = map pos (particles s)"
    by (simp add: comp_def sig_def)
  have "map (fst \<circ> snd) (map sig (particles (fst (steps dts (s, e)))))
        = map (fst \<circ> snd) (map sig (particles s))"
    by (simp only: m)
  then have v: "map vel (particles (fst (steps dts (s, e)))) = map vel (particles s)"
    by (simp add: comp_def sig_def)
  show ?thesis
    using p v assms(2,3,4) by (simp add: atRestInside_def)
qed

theorem two_particles_at_rest_never_move_witness:
  "quiet simR \<and> particles simR = [makeParticle 100 100 (0, 0), makeParticle 200 100 (0, 0)] \<and>
   atRestInside (width simR) (height simR) (makeParticle 100 100 (0, 0)) \<and>
   atRestInside (width simR) (height simR) (makeParticle 200 100 (0, 0)) \<and>
   separated (params simR) (makeParticle 100 100 (0, 0)) (makeParticle 200 100 (0, 0)) \<and>
   map pos (particles (fst (steps [1 / 60, 1 / 60] (simR, env0)))) = [(100, 100), (200, 100)] \<and>
   map vel (particles (fst (steps [1 / 60, 1 / 60] (simR, env0)))) = [(0, 0), (0, 0)]"
proof -
  have q: "quiet simR"
    by (simp add: quiet_def simR_def sim0_def wf_grid_NeighborGrid)
  have p: "particles simR = [makeParticle 100 100 (0, 0), makeParticle 200 100 (0, 0)]"
    by (simp add: simR_def)
  have a: "atRestInside (width simR) (height simR) (makeParticle 100 100 (0, 0))"
    by (simp add: atRestInside_def simR_def sim0_def makeParticle_fields)
  have b: "atRestInside (width simR) (height simR) (makeParticle 200 100 (0, 0))"
    by (simp add: atRestInside_def simR_def sim0_def makeParticle_fields)
  have s: "separated (params simR) (makeParticle 100 100 (0, 0)) (makeParticle 200 100 (0, 0))"
    by (simp add: separated_def simR_def sim0_def honey_def makeParticle_fields vSub_def vLen_x0)
  have d: "\<forall>dt \<in> set [1 / 60, 1 / 60 :: real]. 0 \<le> dt" by simp
  show ?thesis
    using two_particles_at_rest_never_move [OF q p a b s d, of env0] q p a b s
    by (simp add: makeParticle_fields)
qed

text \<open>
  Claim C7 as stated fails: the two particles of \<open>simW\<close> are at rest 499 apart, beyond
  every cutoff, with gravity and heating off, \<open>kT = 0\<close> and no thermal energy; the
  first one sits at \<open>x = 1\<close>, and one step puts it at \<open>x \<ge> 3\<close>, since \<open>handleWalls\<close> clamps
  it to the wall margin.
\<close>

theorem particle_at_rest_near_wall_moves:
  "\<not> gravityOn simW \<and> \<not> heatingOn simW \<and> kT (params simW) = 0 \<and>
   map pos (particles simW) = [(1, 100), (500, 100)] \<and>
   map vel (particles simW) = [(0, 0), (0, 0)] \<and>
   map thermalEnergy (particles simW) = [0, 0] \<and>
   separated (params simW) (particles simW ! 0) (particles simW ! 1) \<and>
   length (particles (fst (step (1 / 60) (simW, env0)))) = 2 \<and>
   3 \<le> fst (pos (particles (fst (step (1 / 60) (simW, env0))) ! 0))"
proof -
  let ?s' = "fst (step (1 / 60) (simW, env0))"
  have f: "fits (fst (simW, env0))"
    by (simp add: fits_def simW_def sim0_def makeParticle_fields)
  have m: "map shape (particles ?s') = map shape (particles simW)"
    using step_map_shape [of "1 / 60" "(simW, env0)"] by simp
  have "length (particles ?s') = length (particles simW)"
    using m by (rule map_eq_imp_length_eq)
  then have len: "length (particles ?s') = 2" by (simp add: simW_def)
  then have mem: "particles ?s' ! 0 \<in> set (particles ?s')" by simp
  have "map shape (particles ?s') ! 0 = map shape (particles simW) ! 0" by (simp only: m)
  moreover have "map shape (particles ?s') ! 0 = shape (particles ?s' ! 0)"
    using len by (intro nth_map) simp
  moreover have "map shape (particles simW) ! 0 = (3, 1)"
    by (simp add: simW_def shape_def makeParticle_fields)
  ultimately have "shape (particles ?s' ! 0) = (3, 1)" by simp
  then have r: "radius (particles ?s' ! 0) = 3" by (simp add: shape_def)
  have "inDomain ?s'" using f by (rule step_inDomain)
  then have "radius (particles ?s' ! 0) \<le> fst (pos (particles ?s' ! 0))"
    unfolding inDomain_def using mem by blast
  then have x: "3 \<le> fst (pos (particles ?s' ! 0))" by (simp only: r)
  have s: "separated (params simW) (particles simW ! 0) (particles simW ! 1)"
    by (simp add: separated_def simW_def sim0_def honey_def makeParticle_fields vSub_def vLen_x0)
  have c: "\<not> gravityOn simW \<and> \<not> heatingOn simW \<and> kT (params simW) = 0 \<and>
   map pos (particles simW) = [(1, 100), (500, 100)] \<and>
   map vel (particles simW) = [(0, 0), (0, 0)] \<and>
   map thermalEnergy (particles simW) = [0, 0]"
    by (simp add: simW_def sim0_def makeParticle_fields)
  show ?thesis using c s len x by blast
qed

subsection \<open>A single particle in free flight\<close>

lemma pairForces_single:
  assumes "wf_grid g0"
  shows "pairForces P (rebuild g0 [p]) [p] = [p\<lparr> acc := (0, 0), localNeighbors := 0 \<rparr>]"
proof -
  let ?p0 = "p\<lparr> acc := (0, 0), localNeighbors := 0 \<rparr>"
  have inner: "fold (forceCallback P dc ax ay 0) js [?p0] = [?p0]"
    if "\<forall>j \<in> set js. j < 1" for dc ax ay js
    using that by (induction js) (simp_all add: forceCallback_def)
  have "\<forall>j \<in> set (forNeighbors (rebuild g0 [p]) x y r). j < 1" for x y r
    using forNeighbors_rebuild_below [OF assms, of _ "[p]" x y r] by simp
  then show ?thesis by (simp add: pairForces_def Let_def inner)
qed

lemma resolveCollisions_single:
  assumes "wf_grid (grid s)" and "particles s = [p]"
  shows "particles (resolveCollisions s) = [p]"
proof -
  have inner: "fst (fold (collideCallback hh ax ay 0) js st) = fst st"
    if "\<forall>j \<in> set js. j < 1" for hh ax ay js st
    using that by (induction js arbitrary: st) (simp_all add: collideCallback_def Let_def)
  have "\<forall>j \<in> set (forNeighbors (rebuild (grid s) [p]) x y r). j < 1" for x y r
    using forNeighbors_rebuild_below [OF assms(1), of _ "[p]" x y r] by simp
  then show ?thesis by (simp add: resolveCollisions_def Let_def assms(2) inner)
qed

lemma handleWalls_inside_both:
  assumes "0 < radius p" and "2 * radius p \<le> w" and "2 * radius p \<le> h"
  shows "radius p \<le> fst (pos (handleWalls w h p)) \<and>
         fst (pos (handleWalls w h p)) \<le> w - radius p \<and>
         radius p \<le> snd (pos (handleWalls w h p)) \<and>
         snd (pos (handleWalls w h p)) \<le> h - radius p"
  using assms by (simp add: handleWalls_def Let_def jsor_def)

lemma handleWalls_stays:
  assumes "0 < radius p"
    and "radius p \<le> fst (pos p)" "fst (pos p) \<le> w - radius p"
    and "radius p \<le> snd (pos p)" "snd (pos p) \<le> h - radius p"
  shows "handleWalls w h p = p"
  using assms by (simp add: handleWalls_def Let_def jsor_def)

lemma handleWalls_idem:
  assumes "0 < radius p" and "2 * radius p \<le> w" and "2 * radius p \<le> h"
  shows "handleWalls w h (handleWalls w h p) = handleWalls w h p"
proof -
  have r: "radius (handleWalls w h p) = radius p"
    using handleWalls_shape [of w h p] by (simp add: shape_def)
  show ?thesis
    using handleWalls_inside_both [OF assms] assms(1)
    by (intro handleWalls_stays) (simp_all add: r)
qed


lemma steadyClock_gap:
  assumes "steadyClock s e"
  shows "\<not> nowTape e k - (if lastThermoMs s = 0 then nowTape e k else lastThermoMs s) > 500"
proof -
  from assms obtain lo where
    a: "\<forall>k. lo \<le> nowTape e k \<and> nowTape e k \<le> lo + 500" and
    b: "lastThermoMs s = 0 \<or> (lo \<le> lastThermoMs s \<and> lastThermoMs s \<le> lo + 500)"
    unfolding steadyClock_def by blast
  from a have "lo \<le> nowTape e k" "nowTape e k \<le> lo + 500" by simp_all
  with b show ?thesis by auto
qed

lemma computeForces_single:
  assumes q: "quiet s" and ps: "particles s = [p]" and clk: "steadyClock s e"
  shows "computeForces dt (s, e) =
    (s\<lparr> grid := rebuild (grid s) [p],
        particles := [p\<lparr> acc := (- 0.3 * fst (vel p), - 0.3 * snd (vel p)),
                         localNeighbors := 0 \<rparr>],
        lastThermoMs := (if lastThermoMs s = 0 then nowTape e (nowPos e)
                         else lastThermoMs s) \<rparr>,
     e\<lparr> normPos := Suc (Suc (normPos e)), nowPos := Suc (nowPos e) \<rparr>)"
proof -
  from q have w: "wf_grid (grid s)" and k: "kT (params s) = 0" by (simp_all add: quiet_def)
  show ?thesis
    using steadyClock_gap [OF clk, of "nowPos e"]
    by (cases "lastThermoMs s = 0")
       (simp_all add: computeForces_def Let_def ps pairForces_single [OF w] k jsor_def
        dragKick_def randNorm_def performanceNow_def)
qed


lemma substep_quiet_env:
  assumes "\<not> gravityOn (fst se)" and "\<not> heatingOn (fst se)"
  shows "snd (substep dtStep se) =
    (let s1 = fst (computeForces dtStep se);
         e1 = snd (computeForces dtStep se);
         pe = forEachEnv (integrate (width s1) (height s1) dtStep)
                (map (dissipate dtStep) (particles s1)) e1
     in snd (performanceNow (snd pe)))"
  using assms by (simp add: substep_def Let_def split_def computeForces_fields)

lemma handleWalls_sig_cong:
  assumes "sig a = sig b"
  shows "sig (handleWalls w h a) = sig (handleWalls w h b)"
  using assms by (simp add: handleWalls_def Let_def sig_def)

lemma handleWalls_thermal: "thermalEnergy (handleWalls w h p) = thermalEnergy p"
  by (simp add: handleWalls_def Let_def)

lemma integrate_cool:
  assumes "thermalEnergy p \<le> 0.1"
  shows "integrate w h dt p e =
    (handleWalls w h
       (p\<lparr> vel := (fst (vel p) + (fst (acc p) / mass p) * dt,
                    snd (vel p) + (snd (acc p) / mass p) * dt),
           pos := (fst (pos p) + (fst (vel p) + (fst (acc p) / mass p) * dt) * dt,
                   snd (pos p) + (snd (vel p) + (snd (acc p) / mass p) * dt) * dt) \<rparr>), e)"
  using assms by (simp add: integrate_def Let_def jsor_def)

lemma collisionPass_single:
  assumes "wf_grid (grid s)" and "particles s = [x]" and "0 < radius x"
    and "radius x \<le> fst (pos x)" "fst (pos x) \<le> width s - radius x"
    and "radius x \<le> snd (pos x)" "snd (pos x) \<le> height s - radius x"
  shows "particles (collisionPass s) = [x]" and "wf_grid (grid (collisionPass s))"
proof -
  show "particles (collisionPass s) = [x]"
    using resolveCollisions_single [OF assms(1,2)] handleWalls_stays [OF assms(3-7)]
    by (simp add: collisionPass_particles)
  show "wf_grid (grid (collisionPass s))"
    using wf_grid_rebuild [OF assms(1)]
    by (simp add: collisionPass_def resolveCollisions_def Let_def)
qed

lemma collisionPasses_single:
  assumes "wf_grid (grid s)" and "particles s = [x]" and "0 < radius x"
    and "radius x \<le> fst (pos x)" "fst (pos x) \<le> width s - radius x"
    and "radius x \<le> snd (pos x)" "snd (pos x) \<le> height s - radius x"
  shows "particles ((collisionPass ^^ n) s) = [x] \<and> wf_grid (grid ((collisionPass ^^ n) s)) \<and>
         width ((collisionPass ^^ n) s) = width s \<and> height ((collisionPass ^^ n) s) = height s \<and>
         params ((collisionPass ^^ n) s) = params s \<and>
         gravityOn ((collisionPass ^^ n) s) = gravityOn s \<and>
         heatingOn ((collisionPass ^^ n) s) = heatingOn s \<and>
         lastThermoMs ((collisionPass ^^ n) s) = lastThermoMs s"
proof (rule funpow_inv [where P = "\<lambda>s'. particles s' = [x] \<and> wf_grid (grid s') \<and>
         width s' = width s \<and> height s' = height s \<and> params s' = params s \<and>
         gravityOn s' = gravityOn s \<and> heatingOn s' = heatingOn s \<and>
         lastThermoMs s' = lastThermoMs s"])
  fix s' :: sim
  assume a: "particles s' = [x] \<and> wf_grid (grid s') \<and>
         width s' = width s \<and> height s' = height s \<and> params s' = params s \<and>
         gravityOn s' = gravityOn s \<and> heatingOn s' = heatingOn s \<and>
         lastThermoMs s' = lastThermoMs s"
  then show "particles (collisionPass s') = [x] \<and> wf_grid (grid (collisionPass s')) \<and>
         width (collisionPass s') = width s \<and> height (collisionPass s') = height s \<and>
         params (collisionPass s') = params s \<and>
         gravityOn (collisionPass s') = gravityOn s \<and>
         heatingOn (collisionPass s') = heatingOn s \<and>
         lastThermoMs (collisionPass s') = lastThermoMs s"
    using collisionPass_single [of s' x] assms(3-7)
    by (simp add: collisionPass_fields)
next
  show "particles s = [x] \<and> wf_grid (grid s) \<and>
         width s = width s \<and> height s = height s \<and> params s = params s \<and>
         gravityOn s = gravityOn s \<and> heatingOn s = heatingOn s \<and>
         lastThermoMs s = lastThermoMs s"
    using assms(1,2) by simp
qed

lemma substep_single:
  assumes q: "quiet s" and l: "lone s p" and clk: "steadyClock s e" and dt: "0 \<le> dt"
  shows "\<exists>p'. lone (fst (substep dt (s, e))) p' \<and>
           sig p' = sig (coast (width s) (height s) dt p)"
    and "quiet (fst (substep dt (s, e)))"
    and "steadyClock (fst (substep dt (s, e))) (snd (substep dt (s, e)))"
    and "width (fst (substep dt (s, e))) = width s"
    and "height (fst (substep dt (s, e))) = height s"
proof -
  let ?w = "width s" and ?h = "height s"
  from l have ps: "particles s = [p]" and te: "thermalEnergy p \<le> 0.1" and m: "0 < mass p"
    and r: "0 < radius p" "2 * radius p \<le> ?w" "2 * radius p \<le> ?h"
    by (simp_all add: lone_def)
  from q have g: "\<not> gravityOn s" "\<not> heatingOn s" "wf_grid (grid s)"
    by (simp_all add: quiet_def)
  define lt where "lt = (if lastThermoMs s = 0 then nowTape e (nowPos e) else lastThermoMs s)"
  define pd where
    "pd = p\<lparr> acc := (- 0.3 * fst (vel p), - 0.3 * snd (vel p)), localNeighbors := 0 \<rparr>"
  define s1 where
    "s1 = s\<lparr> grid := rebuild (grid s) [p], particles := [pd], lastThermoMs := lt \<rparr>"
  define e1 where "e1 = e\<lparr> normPos := Suc (Suc (normPos e)), nowPos := Suc (nowPos e) \<rparr>"
  define pt where "pt = dissipate dt pd"
  have cf: "computeForces dt (s, e) = (s1, e1)"
    unfolding s1_def e1_def pd_def lt_def by (rule computeForces_single [OF q ps clk])
  have f1: "particles s1 = [pd]" "width s1 = ?w" "height s1 = ?h" "params s1 = params s"
    "gravityOn s1 = gravityOn s" "heatingOn s1 = heatingOn s" "lastThermoMs s1 = lt"
    "grid s1 = rebuild (grid s) [p]"
    by (simp_all add: s1_def)
  have tpt: "thermalEnergy pt \<le> 0.1"
    using te dt by (simp add: pt_def pd_def dissipate_def Let_def jsor_def max_def)
  define y where "y = pt\<lparr> vel := (fst (vel pt) + (fst (acc pt) / mass pt) * dt,
                    snd (vel pt) + (snd (acc pt) / mass pt) * dt),
           pos := (fst (pos pt) + (fst (vel pt) + (fst (acc pt) / mass pt) * dt) * dt,
                   snd (pos pt) + (snd (vel pt) + (snd (acc pt) / mass pt) * dt) * dt) \<rparr>"
  define x where "x = handleWalls ?w ?h y"
  have ig: "integrate ?w ?h dt pt e' = (x, e')" for e'
    unfolding x_def y_def by (rule integrate_cool [OF tpt])
  have ry: "radius y = radius p" "mass y = mass p" "thermalEnergy y \<le> 0.1"
    using tpt by (simp_all add: y_def pt_def pd_def dissipate_def Let_def)
  have rx: "radius x = radius p" "mass x = mass p"
    using handleWalls_shape [of ?w ?h y] ry by (simp_all add: x_def shape_def)
  have tx: "thermalEnergy x \<le> 0.1" using ry by (simp add: x_def handleWalls_thermal)
  have inside: "radius x \<le> fst (pos x)" "fst (pos x) \<le> ?w - radius x"
    "radius x \<le> snd (pos x)" "snd (pos x) \<le> ?h - radius x"
    using handleWalls_inside_both [of y ?w ?h] r ry rx by (simp_all add: x_def)
  have sy: "sig y = sig (p\<lparr> vel := (fst (vel p) * (1 - 0.3 * dt / mass p),
                                      snd (vel p) * (1 - 0.3 * dt / mass p)),
       pos := (fst (pos p) + fst (vel p) * (1 - 0.3 * dt / mass p) * dt,
               snd (pos p) + snd (vel p) * (1 - 0.3 * dt / mass p) * dt) \<rparr>)"
    by (simp add: y_def pt_def pd_def sig_def dissipate_def Let_def algebra_simps)
  have sx: "sig x = sig (coast ?w ?h dt p)"
    unfolding x_def coast_def Let_def
    by (rule trans [OF handleWalls_sig_cong [OF sy]]) simp
  define s2 where "s2 = s1\<lparr> particles := [x] \<rparr>"
  have f2: "particles s2 = [x]" "width s2 = ?w" "height s2 = ?h" "params s2 = params s"
    "gravityOn s2 = gravityOn s" "heatingOn s2 = heatingOn s" "lastThermoMs s2 = lt"
    "grid s2 = rebuild (grid s) [p]"
    by (simp_all add: s2_def f1)
  have c5: "particles ((collisionPass ^^ 5) s2) = [x] \<and> wf_grid (grid ((collisionPass ^^ 5) s2)) \<and>
         width ((collisionPass ^^ 5) s2) = width s2 \<and> height ((collisionPass ^^ 5) s2) = height s2 \<and>
         params ((collisionPass ^^ 5) s2) = params s2 \<and>
         gravityOn ((collisionPass ^^ 5) s2) = gravityOn s2 \<and>
         heatingOn ((collisionPass ^^ 5) s2) = heatingOn s2 \<and>
         lastThermoMs ((collisionPass ^^ 5) s2) = lastThermoMs s2"
    using inside r rx wf_grid_rebuild [OF g(3), of "[p]"]
    by (intro collisionPasses_single) (simp_all add: f2)
  define s5 where "s5 = (collisionPass ^^ 5) s2"
  define t where "t = nowTape e (Suc (nowPos e))"
  have pe: "forEachEnv (integrate ?w ?h dt) (map (dissipate dt) (particles s1)) e1 = ([x], e1)"
    by (simp add: f1 ig pt_def [symmetric])
  have fe1: "nowTape e1 = nowTape e" "nowPos e1 = Suc (nowPos e)"
    by (simp_all add: e1_def)
  have g': "\<not> gravityOn (fst (s, e))" "\<not> heatingOn (fst (s, e))" using g(1,2) by simp_all
  have fs: "fst (substep dt (s, e)) =
      s5\<lparr> particles := map (classify (params s5) (height s5) t) (particles s5) \<rparr>"
    unfolding substep_quiet_unfold [OF g'] cf fst_conv snd_conv f1(2,3) pe Let_def
    by (simp add: s5_def s2_def t_def performanceNow_def fe1)
  have sn: "snd (substep dt (s, e)) = e1\<lparr> nowPos := Suc (Suc (nowPos e)) \<rparr>"
    unfolding substep_quiet_env [OF g'] cf fst_conv snd_conv f1(2,3) pe Let_def
    by (simp add: performanceNow_def fe1)
  let ?p' = "classify (params s5) (height s5) t x"
  have f5: "particles s5 = [x]" "wf_grid (grid s5)" "width s5 = ?w" "height s5 = ?h"
    "params s5 = params s" "gravityOn s5 = gravityOn s" "heatingOn s5 = heatingOn s"
    "lastThermoMs s5 = lt"
    using c5 by (simp_all add: s5_def f2)
  have cl: "sig ?p' = sig x" "thermalEnergy ?p' \<le> 0.1"
    using classify_calm [OF tx] by simp_all
  have "lone (fst (substep dt (s, e))) ?p'"
    using cl(2) sig_fields(3,4) [OF cl(1)] rx m r
    by (simp add: fs lone_def f5)
  then show "\<exists>p'. lone (fst (substep dt (s, e))) p' \<and>
           sig p' = sig (coast (width s) (height s) dt p)"
    using cl(1) sx by (intro exI [of _ ?p']) simp
  show "quiet (fst (substep dt (s, e)))"
    using q by (simp add: fs quiet_def f5)
  show "width (fst (substep dt (s, e))) = width s" by (simp add: fs f5)
  show "height (fst (substep dt (s, e))) = height s" by (simp add: fs f5)
  from clk obtain lo where
    a: "\<forall>k. lo \<le> nowTape e k \<and> nowTape e k \<le> lo + 500" and
    b: "lastThermoMs s = 0 \<or> (lo \<le> lastThermoMs s \<and> lastThermoMs s \<le> lo + 500)"
    unfolding steadyClock_def by blast
  have "lo \<le> lt \<and> lt \<le> lo + 500" using a b by (auto simp add: lt_def)
  then show "steadyClock (fst (substep dt (s, e))) (snd (substep dt (s, e)))"
    unfolding steadyClock_def using a
    by (intro exI [of _ lo]) (simp add: fs sn f5 e1_def)
qed


lemma geo_closed: "(1 - q) * geo q n = q * (1 - q ^ n)"
proof (induction n)
  case 0
  show ?case by simp
next
  case (Suc n)
  have "(1 - q) * geo q (Suc n) = (1 - q) * geo q n + (1 - q) * q ^ Suc n"
    by (simp only: geo.simps distrib_left)
  also have "\<dots> = q * (1 - q ^ n) + (1 - q) * q ^ Suc n" by (simp only: Suc)
  also have "\<dots> = q * (1 - q ^ Suc n)" by (simp add: algebra_simps)
  finally show ?case .
qed

lemma drag_scale:
  fixes m dt G R :: real
  assumes "0 < m" and "0.3 * dt / m * G = R"
  shows "dt * G = (m / 0.3) * R"
  using assms by (auto simp add: field_simps)

lemma geo_bounds:
  assumes "0 \<le> q" and "q \<le> 1"
  shows "0 \<le> geo q n \<and> geo q n \<le> real n"
proof (induction n)
  case 0
  show ?case by simp
next
  case (Suc n)
  have "0 \<le> q ^ Suc n" "q ^ Suc n \<le> 1"
    using assms by (simp_all add: power_le_one mult_le_one)
  with Suc show ?case by simp
qed

lemma step_quiet:
  assumes "\<not> gravityOn s"
  shows "step dt (s, e) = substep dt (s, e)"
  using assms by (simp add: step_def substepCount_def)

lemma coast_sig_cong:
  assumes "sig a = sig b"
  shows "sig (coast w h dt a) = sig (coast w h dt b)"
  unfolding coast_def Let_def
  using assms by (intro handleWalls_sig_cong) (simp add: sig_def)

lemma steps_lone:
  assumes q: "quiet s" and l: "lone s p" and clk: "steadyClock s e" and dt: "0 \<le> dt"
  shows "\<exists>p'. particles (fst (steps (replicate n dt) (s, e))) = [p'] \<and>
           sig p' = sig ((coast (width s) (height s) dt ^^ n) p)"
proof -
  let ?x = "\<lambda>n. fold step (replicate n dt) (s, e)"
  have "quiet (fst (?x n)) \<and> steadyClock (fst (?x n)) (snd (?x n)) \<and>
        width (fst (?x n)) = width s \<and> height (fst (?x n)) = height s \<and>
        (\<exists>p'. lone (fst (?x n)) p' \<and> sig p' = sig ((coast (width s) (height s) dt ^^ n) p))"
  proof (induction n)
    case 0
    show ?case using q l clk by auto
  next
    case (Suc n)
    obtain sn en where x: "?x n = (sn, en)" by (cases "?x n")
    from Suc x obtain pn where
      i: "quiet sn" "steadyClock sn en" "width sn = width s" "height sn = height s"
        "lone sn pn" "sig pn = sig ((coast (width s) (height s) dt ^^ n) p)"
      by auto
    have nx: "?x (Suc n) = substep dt (sn, en)"
    proof -
      have "replicate (Suc n) dt = replicate n dt @ [dt]"
        by (simp add: replicate_append_same)
      then have "?x (Suc n) = fold step (replicate n dt @ [dt]) (s, e)"
        by (simp only:)
      also have "\<dots> = step dt (sn, en)"
        by (simp only: fold_append fold_Cons fold_Nil comp_apply id_apply x)
      also have "\<dots> = substep dt (sn, en)"
        using i(1) by (intro step_quiet) (simp add: quiet_def)
      finally show ?thesis .
    qed
    from substep_single(1) [OF i(1) i(5) i(2) dt] obtain p' where
      p': "lone (fst (substep dt (sn, en))) p'" "sig p' = sig (coast (width sn) (height sn) dt pn)"
      by blast
    have "sig p' = sig ((coast (width s) (height s) dt ^^ Suc n) p)"
      using p'(2) coast_sig_cong [OF i(6)] by (simp add: i(3,4))
    then show ?case
      unfolding nx
      using substep_single(2-5) [OF i(1) i(5) i(2) dt] p'(1) i(3,4) by auto
  qed
  then show ?thesis by (auto simp add: steps_def lone_def)
qed

lemma coast_glide:
  assumes m: "0 < mass p" and r: "0 < radius p" and dt: "0 \<le> dt" and c: "0.3 * dt \<le> mass p"
    and v: "vel p = (vx, 0)" and vx: "0 \<le> vx" and x: "pos p = (x0, y0)"
    and ins: "radius p \<le> x0" "x0 + vx * dt * real n \<le> w - radius p"
             "radius p \<le> y0" "y0 \<le> h - radius p"
  shows "(coast w h dt ^^ n) p =
           p\<lparr> vel := (vx * (1 - 0.3 * dt / mass p) ^ n, 0),
               pos := (x0 + vx * dt * geo (1 - 0.3 * dt / mass p) n, y0) \<rparr>"
  using ins(2)
proof (induction n)
  case 0
  show ?case using v x by simp
next
  case (Suc n)
  let ?q = "1 - 0.3 * dt / mass p"
  have q: "0 \<le> ?q" "?q \<le> 1" using m dt c by (simp_all add: field_simps)
  have "vx * dt * real n \<le> vx * dt * real (Suc n)"
    using vx dt by (simp add: mult_left_mono)
  with Suc.prems have "x0 + vx * dt * real n \<le> w - radius p" by simp
  then have ih: "(coast w h dt ^^ n) p =
      p\<lparr> vel := (vx * ?q ^ n, 0), pos := (x0 + vx * dt * geo ?q n, y0) \<rparr>"
    by (rule Suc.IH)
  let ?y = "p\<lparr> vel := (vx * ?q ^ Suc n, 0), pos := (x0 + vx * dt * geo ?q (Suc n), y0) \<rparr>"
  have g: "0 \<le> geo ?q (Suc n)" "geo ?q (Suc n) \<le> real (Suc n)"
    using geo_bounds [OF q, of "Suc n"] by simp_all
  have "0 \<le> vx * dt" using vx dt by simp
  then have b: "0 \<le> vx * dt * geo ?q (Suc n)" "vx * dt * geo ?q (Suc n) \<le> vx * dt * real (Suc n)"
    using g by (simp_all add: mult_left_mono del: geo.simps of_nat_Suc)
  have "handleWalls w h ?y = ?y"
    using r ins(1,3,4) Suc.prems b by (intro handleWalls_stays) simp_all
  moreover have "coast w h dt (p\<lparr> vel := (vx * ?q ^ n, 0),
      pos := (x0 + vx * dt * geo ?q n, y0) \<rparr>) = handleWalls w h ?y"
    by (simp add: coast_def Let_def algebra_simps)
  ultimately show ?case by (simp only: funpow.simps comp_def ih)
qed

lemma steps_lone_glide:
  assumes q: "quiet s" and l: "lone s p" and clk: "steadyClock s e"
    and dt: "0 < dt" and c: "0.3 * dt \<le> mass p"
    and v: "vel p = (vx, 0)" and vx: "0 \<le> vx" and x: "pos p = (x0, y0)"
    and ins: "radius p \<le> x0" "x0 + vx * dt * real n \<le> width s - radius p"
             "radius p \<le> y0" "y0 \<le> height s - radius p"
  shows "map pos (particles (fst (steps (replicate n dt) (s, e)))) =
           [(x0 + vx * (mass p / 0.3) * (1 - 0.3 * dt / mass p) *
                  (1 - (1 - 0.3 * dt / mass p) ^ n), y0)] \<and>
         map vel (particles (fst (steps (replicate n dt) (s, e)))) =
           [(vx * (1 - 0.3 * dt / mass p) ^ n, 0)]"
proof -
  let ?q = "1 - 0.3 * dt / mass p"
  from l have m: "0 < mass p" and r: "0 < radius p" by (simp_all add: lone_def)
  from dt have dt0: "0 \<le> dt" by simp
  obtain p' where p': "particles (fst (steps (replicate n dt) (s, e))) = [p']"
      "sig p' = sig ((coast (width s) (height s) dt ^^ n) p)"
    using steps_lone [OF q l clk dt0, of n] by blast
  have cg: "(coast (width s) (height s) dt ^^ n) p =
      p\<lparr> vel := (vx * ?q ^ n, 0), pos := (x0 + vx * dt * geo ?q n, y0) \<rparr>"
    by (rule coast_glide [OF m r dt0 c v vx x ins])
  have "(1 - ?q) * geo ?q n = ?q * (1 - ?q ^ n)" by (rule geo_closed)
  moreover have "1 - ?q = 0.3 * dt / mass p" by simp
  ultimately have "0.3 * dt / mass p * geo ?q n = ?q * (1 - ?q ^ n)" by simp
  then have "dt * geo ?q n = (mass p / 0.3) * (?q * (1 - ?q ^ n))"
    by (rule drag_scale [OF m])
  then have "vx * dt * geo ?q n = vx * (mass p / 0.3) * ?q * (1 - ?q ^ n)"
    by (simp only: mult.assoc)
  then show ?thesis
    using sig_fields(1,2) [OF p'(2)] by (simp add: p'(1) cg)
qed


lemma handleWalls_speed: "\<bar>fst (vel (handleWalls w h p))\<bar> \<le> \<bar>fst (vel p)\<bar>"
  by (simp add: handleWalls_def Let_def abs_mult)

lemma handleWalls_x_lower:
  assumes "0 < radius p" and "X \<le> fst (pos p)" and "X \<le> w - radius p"
  shows "X \<le> fst (pos (handleWalls w h p))"
  using assms by (simp add: handleWalls_def Let_def jsor_def)

lemma coast_shape: "shape (coast w h dt p) = shape p"
  by (simp add: coast_def Let_def handleWalls_shape shape_upd)

lemma coast_bounds:
  assumes m: "0 < mass p" and r: "0 < radius p" and dt: "0 \<le> dt" and c: "0.3 * dt \<le> mass p"
    and v: "\<bar>fst (vel p)\<bar> \<le> V" and x: "X \<le> fst (pos p)" and w: "X - V * dt \<le> w - radius p"
  shows "\<bar>fst (vel (coast w h dt p))\<bar> \<le> V" and "X - V * dt \<le> fst (pos (coast w h dt p))"
proof -
  let ?q = "1 - 0.3 * dt / mass p"
  let ?y = "p\<lparr> vel := (fst (vel p) * ?q, snd (vel p) * ?q),
               pos := (fst (pos p) + fst (vel p) * ?q * dt, snd (pos p) + snd (vel p) * ?q * dt) \<rparr>"
  have q: "0 \<le> ?q" "?q \<le> 1" using m dt c by (simp_all add: field_simps)
  have co: "coast w h dt p = handleWalls w h ?y" by (simp add: coast_def Let_def)
  have "\<bar>fst (vel p) * ?q\<bar> = \<bar>fst (vel p)\<bar> * ?q" using q(1) by (simp add: abs_mult)
  also have "\<dots> \<le> \<bar>fst (vel p)\<bar> * 1" using q(2) by (intro mult_left_mono) simp_all
  finally have vq: "\<bar>fst (vel p) * ?q\<bar> \<le> V" using v by simp
  then show "\<bar>fst (vel (coast w h dt p))\<bar> \<le> V"
    using handleWalls_speed [of w h ?y] by (simp add: co)
  have "\<bar>fst (vel p) * ?q\<bar> * dt \<le> V * dt" using vq dt by (rule mult_right_mono)
  moreover have "- (\<bar>fst (vel p) * ?q\<bar> * dt) \<le> fst (vel p) * ?q * dt"
  proof -
    have "- \<bar>fst (vel p) * ?q\<bar> \<le> fst (vel p) * ?q" by arith
    then have "- \<bar>fst (vel p) * ?q\<bar> * dt \<le> fst (vel p) * ?q * dt"
      using dt by (rule mult_right_mono)
    then show ?thesis by (simp only: mult_minus_left)
  qed
  ultimately have "X - V * dt \<le> fst (pos p) + fst (vel p) * ?q * dt" using x by simp
  then show "X - V * dt \<le> fst (pos (coast w h dt p))"
    unfolding co using r w by (intro handleWalls_x_lower) simp_all
qed

lemma coast_run_bounds:
  assumes m: "0 < mass p" and r: "0 < radius p" and dt: "0 \<le> dt" and c: "0.3 * dt \<le> mass p"
    and V: "0 \<le> V" and v: "\<bar>fst (vel p)\<bar> \<le> V" and w: "fst (pos p) \<le> w - radius p"
  shows "fst (pos p) - real n * (V * dt) \<le> fst (pos ((coast w h dt ^^ n) p))"
proof -
  let ?c = "\<lambda>n. (coast w h dt ^^ n) p"
  have "shape (?c n) = shape p \<and> \<bar>fst (vel (?c n))\<bar> \<le> V \<and>
        fst (pos p) - real n * (V * dt) \<le> fst (pos (?c n))"
  proof (induction n)
    case 0
    show ?case using v by simp
  next
    case (Suc n)
    then have s: "mass (?c n) = mass p" "radius (?c n) = radius p"
      and vn: "\<bar>fst (vel (?c n))\<bar> \<le> V"
      and xn: "fst (pos p) - real n * (V * dt) \<le> fst (pos (?c n))"
      by (simp_all add: shape_def)
    have "0 \<le> real (Suc n) * (V * dt)" using V dt by simp
    then have wn: "fst (pos p) - real n * (V * dt) - V * dt \<le> w - radius (?c n)"
      using w by (simp add: s algebra_simps)
    have "\<bar>fst (vel (coast w h dt (?c n)))\<bar> \<le> V \<and>
          fst (pos p) - real n * (V * dt) - V * dt \<le> fst (pos (coast w h dt (?c n)))"
      using coast_bounds [of "?c n" dt V "fst (pos p) - real n * (V * dt)" w h]
        m r dt c vn xn wn by (simp add: s)
    then show ?case using Suc by (simp add: coast_shape algebra_simps)
  qed
  then show ?thesis by simp
qed

lemma steadyClock_env0: "lastThermoMs s = 0 \<Longrightarrow> steadyClock s env0"
  unfolding steadyClock_def by (intro exI [of _ 1000]) (simp add: env0_def)

lemma simG_quiet: "quiet simG" "quiet simE"
  by (simp_all add: quiet_def simG_def simE_def sim0_def wf_grid_NeighborGrid)

lemma simG_lone: "lone simG (makeParticle 100 100 (10, 0))" "lone simE (makeParticle 897 100 (10, 0))"
  by (simp_all add: lone_def simG_def simE_def sim0_def makeParticle_fields)

lemma simG_fields: "width simG = 900" "height simG = 420" "lastThermoMs simG = 0"
  "width simE = 900" "height simE = 420" "lastThermoMs simE = 0"
  by (simp_all add: simG_def simE_def sim0_def)

subsection \<open>Pair contributions in computeForces\<close>

lemma pairForce_specContribution:
  "pairForce P (state a) (state b) (vSub (pos b) (pos a)) = specContribution P a b"
proof (cases "state a = Liquid \<and> state b = Liquid")
  case True
  then show ?thesis by (simp add: pairForce_liquid specContribution_def Let_def)
next
  case False
  then have "state a = Gas \<or> state b = Gas"
    by (cases "state a"; cases "state b") simp_all
  then have "pairForce P (state a) (state b) (vSub (pos b) (pos a)) =
      vAdd (vAdd (vMul (vMul (ljForce P (vSub (pos b) (pos a))) (jsor_opt (cohLJ P) 1)) 0.2)
                 (vMul (vMul (hbForce P (vSub (pos b) (pos a))) (jsor_opt (cohHB P) 1)) 0.2))
           (vMul (vMul (dipoleForce P (vSub (pos b) (pos a))) (jsor_opt (cohDP P) 1)) 0.2)"
    by (rule pairForce_gas)
  then show ?thesis using False by (auto simp add: specContribution_def Let_def)
qed

lemma forceCallback_frame:
  assumes "i < length ps"
  shows "pos (forceCallback P dc ax ay i j ps ! i) = pos (ps ! i)"
    "vel (forceCallback P dc ax ay i j ps ! i) = vel (ps ! i)"
    "state (forceCallback P dc ax ay i j ps ! i) = state (ps ! i)"
  using assms by (simp_all add: forceCallback_def Let_def)

lemma forceCallback_step:
  assumes i: "i < length ps"
    and ax: "ax = fst (pos (ps ! i))" and ay: "ay = snd (pos (ps ! i))"
  shows "acc (forceCallback P dc ax ay i j ps ! i) =
           (if j = i then acc (ps ! i)
            else vAdd (acc (ps ! i)) (specContribution P (ps ! i) (ps ! j)))"
proof (cases "j = i")
  case True
  then show ?thesis by (simp add: forceCallback_def)
next
  case False
  then have "i \<noteq> j" by simp
  then show ?thesis
    using forceCallback_acc [OF _ i, of j P dc ax ay] False
    by (simp add: ax ay pairForce_specContribution [symmetric] vSub_def)
qed

lemma visitSum_cong:
  assumes "\<forall>j \<in> set js. pos (ps' ! j) = pos (ps ! j) \<and> state (ps' ! j) = state (ps ! j)"
    and "pos (ps' ! i) = pos (ps ! i)" "state (ps' ! i) = state (ps ! i)"
  shows "visitSum P ps' i js f0 = visitSum P ps i js f0"
proof -
  have "specContribution P (ps' ! i) (ps' ! j) = specContribution P (ps ! i) (ps ! j)"
    if "j \<in> set js" for j
    using assms that by (simp add: specContribution_def)
  then show ?thesis
    unfolding visitSum_def by (intro fold_cong) auto
qed

lemma inner_fold_acc:
  assumes "i < length cur" and "\<forall>j \<in> set js. j < length cur"
    and "ax = fst (pos (cur ! i))" and "ay = snd (pos (cur ! i))"
  shows "length (fold (forceCallback P dc ax ay i) js cur) = length cur \<and>
         (\<forall>k. k \<noteq> i \<longrightarrow> fold (forceCallback P dc ax ay i) js cur ! k = cur ! k) \<and>
         pos (fold (forceCallback P dc ax ay i) js cur ! i) = pos (cur ! i) \<and>
         vel (fold (forceCallback P dc ax ay i) js cur ! i) = vel (cur ! i) \<and>
         state (fold (forceCallback P dc ax ay i) js cur ! i) = state (cur ! i) \<and>
         acc (fold (forceCallback P dc ax ay i) js cur ! i) = visitSum P cur i js (acc (cur ! i))"
  using assms
proof (induction js arbitrary: cur)
  case Nil
  show ?case by (simp add: visitSum_def)
next
  case (Cons j js)
  let ?c1 = "forceCallback P dc ax ay i j cur"
  have l1: "length ?c1 = length cur" by (rule forceCallback_length)
  have o1: "?c1 ! k = cur ! k" if "k \<noteq> i" for k using that by (rule forceCallback_others)
  have f1: "pos (?c1 ! i) = pos (cur ! i)" "vel (?c1 ! i) = vel (cur ! i)"
    "state (?c1 ! i) = state (cur ! i)"
    using forceCallback_frame [OF Cons.prems(1)] by simp_all
  have a1: "acc (?c1 ! i) =
      (if j = i then acc (cur ! i) else vAdd (acc (cur ! i)) (specContribution P (cur ! i) (cur ! j)))"
    by (rule forceCallback_step [OF Cons.prems(1,3,4)])
  have ih: "length (fold (forceCallback P dc ax ay i) js ?c1) = length ?c1 \<and>
         (\<forall>k. k \<noteq> i \<longrightarrow> fold (forceCallback P dc ax ay i) js ?c1 ! k = ?c1 ! k) \<and>
         pos (fold (forceCallback P dc ax ay i) js ?c1 ! i) = pos (?c1 ! i) \<and>
         vel (fold (forceCallback P dc ax ay i) js ?c1 ! i) = vel (?c1 ! i) \<and>
         state (fold (forceCallback P dc ax ay i) js ?c1 ! i) = state (?c1 ! i) \<and>
         acc (fold (forceCallback P dc ax ay i) js ?c1 ! i) = visitSum P ?c1 i js (acc (?c1 ! i))"
  proof (rule Cons.IH)
    show "i < length ?c1" using Cons.prems(1) by (simp only: l1)
    show "\<forall>j \<in> set js. j < length ?c1" using Cons.prems(2) by (simp only: l1) simp
    show "ax = fst (pos (?c1 ! i))" unfolding f1 by (rule Cons.prems(3))
    show "ay = snd (pos (?c1 ! i))" unfolding f1 by (rule Cons.prems(4))
  qed
  have "\<forall>j' \<in> set js. pos (?c1 ! j') = pos (cur ! j') \<and> state (?c1 ! j') = state (cur ! j')"
  proof
    fix j' assume "j' \<in> set js"
    show "pos (?c1 ! j') = pos (cur ! j') \<and> state (?c1 ! j') = state (cur ! j')"
      by (cases "j' = i") (simp_all add: f1 o1)
  qed
  then have vs: "visitSum P ?c1 i js f0 = visitSum P cur i js f0" for f0
    by (intro visitSum_cong) (simp_all add: f1)
  have "visitSum P cur i (j # js) (acc (cur ! i)) = visitSum P cur i js (acc (?c1 ! i))"
    by (simp add: visitSum_def a1)
  then show ?case using ih by (simp add: l1 o1 f1 vs)
qed


lemma pairForces_steps:
  fixes P :: scenario and g :: neighbor_grid and ps :: "particle list"
  defines "stp \<equiv> (\<lambda>i ps.
           let a = ps ! i;
               ax = fst (pos a);
               ay = snd (pos a);
               densityCut = 2.4 * sigma P
           in fold (forceCallback P densityCut ax ay i) (forNeighbors g ax ay 28) ps)"
    and "ps0 \<equiv> map (\<lambda>p. p\<lparr> acc := (0, 0), localNeighbors := 0 \<rparr>) ps"
  assumes cand: "\<And>x y r j. j \<in> set (forNeighbors g x y r) \<Longrightarrow> j < length ps"
    and k: "k \<le> length ps"
  shows "length (fold stp [0..<k] ps0) = length ps \<and>
    (\<forall>m < length ps.
       pos (fold stp [0..<k] ps0 ! m) = pos (ps ! m) \<and>
       vel (fold stp [0..<k] ps0 ! m) = vel (ps ! m) \<and>
       state (fold stp [0..<k] ps0 ! m) = state (ps ! m) \<and>
       acc (fold stp [0..<k] ps0 ! m) =
         (if m < k
          then visitSum P ps m (forNeighbors g (fst (pos (ps ! m))) (snd (pos (ps ! m))) 28) (0, 0)
          else (0, 0)))"
  using k
proof (induction k)
  case 0
  show ?case by (simp add: ps0_def)
next
  case (Suc k)
  define cur where "cur = fold stp [0..<k] ps0"
  define js where "js = forNeighbors g (fst (pos (cur ! k))) (snd (pos (cur ! k))) 28"
  define nxt where
    "nxt = fold (forceCallback P (2.4 * sigma P) (fst (pos (cur ! k))) (snd (pos (cur ! k))) k) js cur"
  from Suc.prems have kl: "k < length ps" by simp
  then have "k \<le> length ps" by simp
  then have IH: "length cur = length ps \<and>
    (\<forall>m < length ps.
       pos (cur ! m) = pos (ps ! m) \<and> vel (cur ! m) = vel (ps ! m) \<and>
       state (cur ! m) = state (ps ! m) \<and>
       acc (cur ! m) =
         (if m < k
          then visitSum P ps m (forNeighbors g (fst (pos (ps ! m))) (snd (pos (ps ! m))) 28) (0, 0)
          else (0, 0)))"
    unfolding cur_def by (rule Suc.IH)
  then have ih: "length cur = length ps"
    "\<And>m. m < length ps \<Longrightarrow> pos (cur ! m) = pos (ps ! m)"
    "\<And>m. m < length ps \<Longrightarrow> vel (cur ! m) = vel (ps ! m)"
    "\<And>m. m < length ps \<Longrightarrow> state (cur ! m) = state (ps ! m)"
    "\<And>m. m < length ps \<Longrightarrow> acc (cur ! m) =
       (if m < k
        then visitSum P ps m (forNeighbors g (fst (pos (ps ! m))) (snd (pos (ps ! m))) 28) (0, 0)
        else (0, 0))"
    by blast+
  have "fold stp [0..<Suc k] ps0 = stp k cur"
    by (simp only: upt_Suc_append [OF le0] fold_append fold_Cons fold_Nil comp_apply id_apply cur_def)
  also have "stp k cur = nxt" by (simp add: stp_def Let_def nxt_def js_def)
  finally have nx: "fold stp [0..<Suc k] ps0 = nxt" .
  have kc: "k < length cur" using kl by (simp only: ih(1))
  have jc: "\<forall>j \<in> set js. j < length cur"
    unfolding js_def ih(1) using cand by blast
  have inn: "length nxt = length cur \<and>
         (\<forall>m. m \<noteq> k \<longrightarrow> nxt ! m = cur ! m) \<and>
         pos (nxt ! k) = pos (cur ! k) \<and>
         vel (nxt ! k) = vel (cur ! k) \<and>
         state (nxt ! k) = state (cur ! k) \<and>
         acc (nxt ! k) = visitSum P cur k js (acc (cur ! k))"
    unfolding nxt_def by (rule inner_fold_acc [OF kc jc refl refl])
  have jl: "\<forall>j \<in> set js. j < length ps" unfolding js_def using cand by blast
  have "\<forall>j \<in> set js. pos (cur ! j) = pos (ps ! j) \<and> state (cur ! j) = state (ps ! j)"
    using jl ih(2,4) by blast
  then have v1: "visitSum P cur k js (0, 0) = visitSum P ps k js (0, 0)"
    using ih(2,4) [OF kl] by (intro visitSum_cong) simp_all
  have a0: "acc (cur ! k) = (0, 0)" using ih(5) [OF kl] by simp
  have j2: "js = forNeighbors g (fst (pos (ps ! k))) (snd (pos (ps ! k))) 28"
    unfolding js_def using ih(2) [OF kl] by simp
  have ak: "acc (nxt ! k) =
      visitSum P ps k (forNeighbors g (fst (pos (ps ! k))) (snd (pos (ps ! k))) 28) (0, 0)"
    using inn v1 a0 j2 by simp
  have "pos (nxt ! m) = pos (ps ! m) \<and> vel (nxt ! m) = vel (ps ! m) \<and>
        state (nxt ! m) = state (ps ! m) \<and>
        acc (nxt ! m) =
         (if m < Suc k
          then visitSum P ps m (forNeighbors g (fst (pos (ps ! m))) (snd (pos (ps ! m))) 28) (0, 0)
          else (0, 0))" if m: "m < length ps" for m
  proof (cases "m = k")
    case True
    then show ?thesis using inn ak ih(2,3,4) [OF kl] by simp
  next
    case False
    then have e: "nxt ! m = cur ! m" using inn by blast
    show ?thesis
      unfolding e using False ih(2,3,4,5) [OF m] by (simp add: less_Suc_eq)
  qed
  moreover have "length nxt = length ps" using inn ih(1) by simp
  ultimately show ?case unfolding nx by blast
qed

lemma pairForces_acc:
  assumes cand: "\<And>x y r j. j \<in> set (forNeighbors g x y r) \<Longrightarrow> j < length ps"
    and m: "m < length ps"
  shows "acc (pairForces P g ps ! m) =
           visitSum P ps m (forNeighbors g (fst (pos (ps ! m))) (snd (pos (ps ! m))) 28) (0, 0)"
    and "vel (pairForces P g ps ! m) = vel (ps ! m)"
    and "length (pairForces P g ps) = length ps"
  using pairForces_steps [where P = P, OF cand order_refl] m
  by (simp_all add: pairForces_def Let_def)


lemma map_acc_cond_vel:
  "map acc (map (\<lambda>p. if c p then p\<lparr> vel := v p \<rparr> else p) ps) = map acc ps"
  by (induction ps) simp_all

lemma thermostat_acc: "map acc (thermostat k ps) = map acc ps"
  unfolding thermostat_def
  by (rule mframe_let mframe_if map_acc_cond_vel refl)+

lemma thermostat_length: "length (thermostat k ps) = length ps"
  using thermostat_acc [of k ps] by (rule map_eq_imp_length_eq)

lemma dragKick_unfold:
  "dragKick gamma k p e =
     (p\<lparr> acc := (fst (acc p) + (- gamma * fst (vel p) + normTape e (normPos e) * k),
                  snd (acc p) + (- gamma * snd (vel p) + normTape e (Suc (normPos e)) * k)) \<rparr>,
      e\<lparr> normPos := Suc (Suc (normPos e)) \<rparr>)"
  by (simp add: dragKick_def randNorm_def Let_def)

lemma forEachEnv_Cons:
  "fst (forEachEnv f (p # ps) e) = fst (f p e) # fst (forEachEnv f ps (snd (f p e)))"
  by (simp add: split_def Let_def)

lemma forEachEnv_length: "length (fst (forEachEnv f ps e)) = length ps"
proof (induction ps arbitrary: e)
  case Nil
  show ?case by simp
next
  case (Cons p ps)
  show ?case unfolding forEachEnv_Cons by (simp add: Cons)
qed

lemma forEachEnv_dragKick:
  assumes "i < length ps"
  shows "acc (fst (forEachEnv (dragKick gamma k) ps e) ! i) =
     (fst (acc (ps ! i)) + (- gamma * fst (vel (ps ! i)) + normTape e (normPos e + 2 * i) * k),
      snd (acc (ps ! i)) + (- gamma * snd (vel (ps ! i)) + normTape e (normPos e + 2 * i + 1) * k))"
  using assms
proof (induction ps arbitrary: i e)
  case Nil
  then show ?case by simp
next
  case (Cons p ps)
  have d: "fst (dragKick gamma k p e) =
      p\<lparr> acc := (fst (acc p) + (- gamma * fst (vel p) + normTape e (normPos e) * k),
                  snd (acc p) + (- gamma * snd (vel p) + normTape e (Suc (normPos e)) * k)) \<rparr>"
    "snd (dragKick gamma k p e) = e\<lparr> normPos := Suc (Suc (normPos e)) \<rparr>"
    by (simp_all add: dragKick_unfold)
  show ?case
  proof (cases i)
    case 0
    then show ?thesis unfolding forEachEnv_Cons d by simp
  next
    case (Suc n)
    then have "n < length ps" using Cons.prems by simp
    then show ?thesis
      unfolding forEachEnv_Cons d
      using Cons.IH [of n "e\<lparr> normPos := Suc (Suc (normPos e)) \<rparr>"] Suc
      by simp
  qed
qed

lemma computeForces_particles:
  "particles (fst (computeForces dt (s, e))) =
     (let ps = fst (forEachEnv (dragKick 0.3 (sqrt (2 * 0.3 * max 0 (jsor (kT (params s)) 0))))
                 (pairForces (params s) (rebuild (grid s) (particles s)) (particles s)) e)
      in ps) \<or>
   particles (fst (computeForces dt (s, e))) =
     thermostat (max 0 (jsor (kT (params s)) 0))
       (fst (forEachEnv (dragKick 0.3 (sqrt (2 * 0.3 * max 0 (jsor (kT (params s)) 0))))
                 (pairForces (params s) (rebuild (grid s) (particles s)) (particles s)) e))"
  by (simp add: computeForces_def Let_def split_def)

lemma computeForces_acc:
  assumes w: "wf_grid (grid s)" and i: "i < length (particles s)"
  shows "acc (particles (fst (computeForces dt (s, e))) ! i) =
     vAdd (visitSum (params s) (particles s) i
             (forNeighbors (rebuild (grid s) (particles s))
                (fst (pos (particles s ! i))) (snd (pos (particles s ! i))) 28) (0, 0))
          (- 0.3 * fst (vel (particles s ! i)) +
             normTape e (normPos e + 2 * i) * sqrt (2 * 0.3 * max 0 (jsor (kT (params s)) 0)),
           - 0.3 * snd (vel (particles s ! i)) +
             normTape e (normPos e + 2 * i + 1) * sqrt (2 * 0.3 * max 0 (jsor (kT (params s)) 0)))"
proof -
  let ?g = "rebuild (grid s) (particles s)"
  let ?k = "sqrt (2 * 0.3 * max 0 (jsor (kT (params s)) 0))"
  let ?pf = "pairForces (params s) ?g (particles s)"
  let ?dk = "fst (forEachEnv (dragKick 0.3 ?k) ?pf e)"
  have cand: "j < length (particles s)" if "j \<in> set (forNeighbors ?g x y r)" for x y r j
    using forNeighbors_rebuild_below [OF w, of j "particles s" x y r] that by simp
  have pf: "acc (?pf ! i) = visitSum (params s) (particles s) i
             (forNeighbors ?g (fst (pos (particles s ! i))) (snd (pos (particles s ! i))) 28) (0, 0)"
    "vel (?pf ! i) = vel (particles s ! i)" "length ?pf = length (particles s)"
    using pairForces_acc [of ?g "particles s" i "params s"] cand i by blast+
  have il: "i < length ?pf" using i by (simp only: pf(3))
  have dk: "acc (?dk ! i) =
     (fst (acc (?pf ! i)) + (- 0.3 * fst (vel (?pf ! i)) + normTape e (normPos e + 2 * i) * ?k),
      snd (acc (?pf ! i)) + (- 0.3 * snd (vel (?pf ! i)) + normTape e (normPos e + 2 * i + 1) * ?k))"
    by (rule forEachEnv_dragKick [OF il])
  have ld: "i < length ?dk" using il by (simp only: forEachEnv_length)
  have "acc (thermostat t ?dk ! i) = acc (?dk ! i)" for t
  proof -
    have "acc (thermostat t ?dk ! i) = map acc (thermostat t ?dk) ! i"
      using ld by (simp only: nth_map thermostat_length)
    also have "\<dots> = map acc ?dk ! i" by (simp only: thermostat_acc)
    also have "\<dots> = acc (?dk ! i)" using ld by (simp only: nth_map)
    finally show ?thesis .
  qed
  then have "acc (particles (fst (computeForces dt (s, e))) ! i) = acc (?dk ! i)"
    using computeForces_particles [of dt s e] by (auto simp only: Let_def)
  then show ?thesis
    unfolding dk pf by (simp add: vAdd_def)
qed


lemma cand_pair:
  assumes "defaultShape g"
  shows "forNeighbors (rebuild g [makeParticle 100 100 (0, 0), makeParticle 110 100 (0, 0)]) 100 100 28
           = [0, 1]"
  using assms
  by (simp add: defaultShape_def forNeighbors_def Let_def rebuild_def insert_def clear_def
      cellIndex_def makeParticle_def)

text \<open>
  Claim C10. The acceleration that \<open>computeForces\<close> leaves in particle \<open>i\<close> is the sum, over
  the neighbours \<open>b\<close> other than the particle itself that the grid query visits, of the three
  force terms at \<open>b.pos - a.pos\<close>, each times its scenario coefficient \<open>cohLJ || 1\<close>,
  \<open>cohHB || 1\<close>, \<open>cohDP || 1\<close>, with the extra factor 1.3 on the Lennard-Jones and the
  hydrogen-bond term and no extra factor on the dipole term when both particles are liquid,
  and with the factor 0.2 on all three terms and no factor 1.3 when either is gas; plus the
  drag and the kick. Each call of the neighbour callback adds one such contribution to
  \<open>a.acc\<close> and leaves every other particle as it is.
\<close>

theorem computeForces_pair_phase_scaling:
  assumes "wf_grid (grid s)" and "i < length (particles s)"
    and "i \<noteq> j" and "i < length ps"
  shows "acc (particles (fst (computeForces dt (s, e))) ! i) =
     (let a = particles s ! i;
          visited = forNeighbors (rebuild (grid s) (particles s)) (fst (pos a)) (snd (pos a)) 28;
          kickSigma = sqrt (2 * 0.3 * max 0 (jsor (kT (params s)) 0))
      in vAdd (fold (\<lambda>j f. if j = i then f
                            else vAdd f (specContribution (params s) a (particles s ! j)))
                 visited (0, 0))
              (- 0.3 * fst (vel a) + normTape e (normPos e + 2 * i) * kickSigma,
               - 0.3 * snd (vel a) + normTape e (normPos e + 2 * i + 1) * kickSigma)) \<and>
    acc (forceCallback P dc (fst (pos (ps ! i))) (snd (pos (ps ! i))) i j ps ! i) =
      vAdd (acc (ps ! i)) (specContribution P (ps ! i) (ps ! j)) \<and>
    length (forceCallback P dc ax ay i j ps) = length ps \<and>
    (\<forall>k. k \<noteq> i \<longrightarrow> forceCallback P dc ax ay i j ps ! k = ps ! k)"
proof -
  have "acc (forceCallback P dc (fst (pos (ps ! i))) (snd (pos (ps ! i))) i j ps ! i) =
      vAdd (acc (ps ! i)) (specContribution P (ps ! i) (ps ! j))"
    using forceCallback_step [OF assms(4) refl refl, of P dc j] assms(3) by auto
  moreover have "\<forall>k. k \<noteq> i \<longrightarrow> forceCallback P dc ax ay i j ps ! k = ps ! k"
    using forceCallback_others [of _ i P dc ax ay j ps] by blast
  ultimately show ?thesis
    using computeForces_acc [OF assms(1,2), of dt e]
    by (simp add: Let_def visitSum_def forceCallback_length)
qed

theorem computeForces_pair_phase_scaling_witness:
  "acc (particles (fst (computeForces (1 / 60) (simP, env0))) ! 0) =
     specContribution honey (makeParticle 100 100 (0, 0)) (makeParticle 110 100 (0, 0)) \<and>
   acc (forceCallback honey 24 100 100 0 1
          [makeParticle 100 100 (0, 0), makeParticle 110 100 (0, 0)] ! 0) =
     specContribution honey (makeParticle 100 100 (0, 0)) (makeParticle 110 100 (0, 0))"
proof -
  let ?a = "makeParticle 100 100 (0, 0)" and ?b = "makeParticle 110 100 (0, 0)"
  have w: "wf_grid (grid simP)" by (simp add: simP_def sim0_def wf_grid_NeighborGrid)
  have i: "(0 :: nat) < length (particles simP)" "(0 :: nat) \<noteq> 1" "(0 :: nat) < length [?a, ?b]"
    by (simp_all add: simP_def)
  have f: "particles simP = [?a, ?b]" "params simP = honey" by (simp_all add: simP_def sim0_def)
  have c: "forNeighbors (rebuild (grid simP) [?a, ?b]) 100 100 28 = [0, 1]"
    using cand_pair [OF defaultShape_NeighborGrid] by (simp add: simP_def sim0_def)
  have z: "vAdd (0, 0) v = v" "vAdd v (0, 0) = v" for v by (simp_all add: vAdd_def)
  have a0: "acc ?a = (0, 0)" by (simp add: makeParticle_def)
  note th = computeForces_pair_phase_scaling [OF w i, of "1 / 60" env0 honey 24 100 100]
  have A: "acc (particles (fst (computeForces (1 / 60) (simP, env0))) ! 0) =
      specContribution honey ?a ?b"
    using th [THEN conjunct1]
    by (simp add: f Let_def makeParticle_fields c z env0_def)
  have B: "acc (forceCallback honey 24 100 100 0 1 [?a, ?b] ! 0) = specContribution honey ?a ?b"
    using th [THEN conjunct2, THEN conjunct1]
    by (simp add: makeParticle_fields z a0)
  from A B show ?thesis by (rule conjI)
qed

subsection \<open>A single particle in the version with periodic wrap\<close>

lemma jsRem_range:
  assumes "1 \<le> c"
  shows "0 \<le> jsRem (jsRem a c + c) c \<and> jsRem (jsRem a c + c) c < c"
proof -
  have c: "\<bar>c\<bar> = c" "0 < c" using assms by simp_all
  have "0 \<le> \<bar>a\<bar> mod c" "\<bar>a\<bar> mod c < c" using c(2) by simp_all
  then have "- c < jsRem a c" "jsRem a c < c"
    unfolding jsRem_def c(1) by (cases "a < 0"; cases "a = 0"; simp add: sgn_if)+
  then have p: "0 < jsRem a c + c" by simp
  then have "jsRem (jsRem a c + c) c = (jsRem a c + c) mod c"
    unfolding jsRem_def [of "jsRem a c + c"] c(1) by (simp add: sgn_if)
  then show ?thesis using c(2) by simp
qed

lemma cellsBelow_insert_hl:
  assumes "cellsBelow n g" and "i < n"
  shows "cellsBelow n (insert_hl g i p)"
proof -
  let ?idx = "nat (cellIndex_hl g (fst (pos p)) (snd (pos p)))"
  let ?cell = "case cells g ! ?idx of None \<Rightarrow> [] | Some c \<Rightarrow> c"
  have old: "\<forall>k \<in> set ?cell. k < n" if "?idx < length (cells g)"
  proof (cases "cells g ! ?idx")
    case None
    then show ?thesis by simp
  next
    case (Some l)
    have "cells g ! ?idx \<in> set (cells g)" using that by simp
    then show ?thesis using assms(1) Some by (auto simp add: cellsBelow_def)
  qed
  show ?thesis
  proof (cases "?idx < length (cells g)")
    case True
    have "set ((cells g)[?idx := Some (?cell @ [i])]) \<subseteq> Set.insert (Some (?cell @ [i])) (set (cells g))"
      by (rule set_update_subset_insert)
    then show ?thesis
      using assms old [OF True] by (auto simp add: cellsBelow_def insert_hl_def Let_def)
  next
    case False
    then have "(cells g)[?idx := Some (?cell @ [i])] = cells g"
      by (simp add: not_less list_update_beyond)
    then show ?thesis using assms(1) by (simp add: cellsBelow_def insert_hl_def Let_def)
  qed
qed

lemma cellsBelow_rebuild_hl: "cellsBelow (length ps) (rebuild_hl g ps)"
  unfolding rebuild_hl_def
  by (rule fold_inv_mem [where P = "cellsBelow (length ps)"])
     (simp_all add: cellsBelow_insert_hl cellsBelow_clear)

lemma wf_grid_rebuild_hl:
  assumes "wf_grid g"
  shows "wf_grid (rebuild_hl g ps)"
proof -
  have "cols (rebuild_hl g ps) = cols g \<and> rows (rebuild_hl g ps) = rows g \<and>
        length (cells (rebuild_hl g ps)) = length (cells g)"
    unfolding rebuild_hl_def
    by (rule fold_inv [where P = "\<lambda>g'. cols g' = cols g \<and> rows g' = rows g \<and>
          length (cells g') = length (cells g)"])
       (simp_all add: insert_hl_def Let_def clear_def)
  then show ?thesis using assms by (simp add: wf_grid_def)
qed

lemma forNeighbors_hl_below:
  assumes "wf_grid g" and "cellsBelow n g" and "j \<in> set (forNeighbors_hl g x y r)"
  shows "j < n"
proof -
  from assms(3) obtain cy cx l where
    l: "Some l = cells g ! nat (jsRem (jsRem cy (rows g) + rows g) (rows g) * cols g +
                               jsRem (jsRem cx (cols g) + cols g) (cols g))" "j \<in> set l"
    by (auto simp add: forNeighbors_hl_def Let_def split: option.splits)
  let ?ix = "jsRem (jsRem cx (cols g) + cols g) (cols g)"
  let ?iy = "jsRem (jsRem cy (rows g) + rows g) (rows g)"
  let ?k = "nat (?iy * cols g + ?ix)"
  have c: "1 \<le> cols g" "1 \<le> rows g" using assms(1) by (simp_all add: wf_grid_def)
  have "?k < nat (cols g * rows g)"
    using jsRem_range [OF c(1), of cx] jsRem_range [OF c(2), of cy]
    by (intro cell_index_bound) simp_all
  then have "?k < length (cells g)"
    using assms(1) by (simp add: wf_grid_def)
  then have "cells g ! ?k \<in> set (cells g)" by simp
  then have mem: "Some l \<in> set (cells g)" using l(1) by simp
  have "\<forall>i \<in> set l. i < n"
    using assms(2) mem unfolding cellsBelow_def by fastforce
  then show ?thesis using l(2) by blast
qed

lemma forNeighbors_rebuild_hl_below:
  assumes "wf_grid g" and "j \<in> set (forNeighbors_hl (rebuild_hl g ps) x y r)"
  shows "j < length ps"
  using forNeighbors_hl_below [OF wf_grid_rebuild_hl [OF assms(1)] cellsBelow_rebuild_hl assms(2)] .

lemma pairForces_hl_single:
  assumes "wf_grid g0"
  shows "pairForces_hl P w h (rebuild_hl g0 [p]) [p] = [p\<lparr> acc := (0, 0), localNeighbors := 0 \<rparr>]"
proof -
  let ?p0 = "p\<lparr> acc := (0, 0), localNeighbors := 0 \<rparr>"
  have inner: "fold (forceCallback_hl P w h dc ax ay 0) js [?p0] = [?p0]"
    if "\<forall>j \<in> set js. j < 1" for dc ax ay js
    using that by (induction js) (simp_all add: forceCallback_hl_def)
  have "\<forall>j \<in> set (forNeighbors_hl (rebuild_hl g0 [p]) x y r). j < 1" for x y r
    using forNeighbors_rebuild_hl_below [OF assms, of _ "[p]" x y r] by simp
  then show ?thesis by (simp add: pairForces_hl_def Let_def inner)
qed

lemma resolveCollisions_hl_single:
  assumes "wf_grid (grid s)" and "particles s = [p]"
  shows "resolveCollisions_hl s = s\<lparr> grid := rebuild_hl (grid s) [p] \<rparr>"
proof -
  have inner: "fold (collideCallback_hl w h ax ay 0) js ps = ps"
    if "\<forall>j \<in> set js. j < 1" for w h ax ay js ps
    using that by (induction js arbitrary: ps) (simp_all add: collideCallback_hl_def)
  have "\<forall>j \<in> set (forNeighbors_hl (rebuild_hl (grid s) [p]) x y r). j < 1" for x y r
    using forNeighbors_rebuild_hl_below [OF assms(1), of _ "[p]" x y r] by simp
  then have "resolveCollisions_hl s = s\<lparr> grid := rebuild_hl (grid s) [p], particles := [p] \<rparr>"
    by (simp add: resolveCollisions_hl_def Let_def assms(2) inner)
  then show ?thesis using assms(2) by simp
qed

lemma computeForces_hl_single:
  assumes q: "quiet s" and ps: "particles s = [p]" and clk: "steadyClock s e"
  shows "computeForces_hl dt (s, e) =
    (s\<lparr> grid := rebuild_hl (grid s) [p],
        particles := [p\<lparr> acc := (- 0.3 * fst (vel p), - 0.3 * snd (vel p)),
                         localNeighbors := 0 \<rparr>],
        lastThermoMs := (if lastThermoMs s = 0 then nowTape e (nowPos e)
                         else lastThermoMs s) \<rparr>,
     e\<lparr> normPos := Suc (Suc (normPos e)), nowPos := Suc (nowPos e) \<rparr>)"
proof -
  from q have w: "wf_grid (grid s)" and k: "kT (params s) = 0" by (simp_all add: quiet_def)
  show ?thesis
    using steadyClock_gap [OF clk, of "nowPos e"]
    by (cases "lastThermoMs s = 0")
       (simp_all add: computeForces_hl_def Let_def ps pairForces_hl_single [OF w] k jsor_def
        dragKick_def randNorm_def performanceNow_def)
qed


lemma wrap_hl_sig_cong:
  assumes "sig a = sig b"
  shows "sig (wrap_hl w h a) = sig (wrap_hl w h b)"
  using assms by (simp add: wrap_hl_def Let_def sig_def)

lemma wrap_hl_mass: "mass (wrap_hl w h p) = mass p"
  by (simp add: wrap_hl_def Let_def)

lemma classify_hl_sig: "sig (classify_hl P t p) = sig p"
  by (simp add: classify_hl_def Let_def sig_upd)

lemma coast_hl_sig_cong:
  assumes "sig a = sig b"
  shows "sig (coast_hl w h dt a) = sig (coast_hl w h dt b)"
  unfolding coast_hl_def Let_def
  using assms by (intro wrap_hl_sig_cong) (simp add: sig_def)

lemma step_hl_single:
  assumes q: "quiet s" and ps: "particles s = [p]" and clk: "steadyClock s e"
  shows "\<exists>p'. particles (fst (step_hl dt (s, e))) = [p'] \<and>
           sig p' = sig (coast_hl (width s) (height s) dt p)"
    and "quiet (fst (step_hl dt (s, e)))"
    and "steadyClock (fst (step_hl dt (s, e))) (snd (step_hl dt (s, e)))"
    and "width (fst (step_hl dt (s, e))) = width s"
    and "height (fst (step_hl dt (s, e))) = height s"
proof -
  let ?w = "width s" and ?h = "height s"
  from q have g: "\<not> gravityOn s" "\<not> heatingOn s" "wf_grid (grid s)" "kT (params s) = 0"
    by (simp_all add: quiet_def)
  define lt where "lt = (if lastThermoMs s = 0 then nowTape e (nowPos e) else lastThermoMs s)"
  define pd where
    "pd = p\<lparr> acc := (- 0.3 * fst (vel p), - 0.3 * snd (vel p)), localNeighbors := 0 \<rparr>"
  define s1 where
    "s1 = s\<lparr> grid := rebuild_hl (grid s) [p], particles := [pd], lastThermoMs := lt \<rparr>"
  define e1 where "e1 = e\<lparr> normPos := Suc (Suc (normPos e)), nowPos := Suc (nowPos e) \<rparr>"
  have cf: "computeForces_hl dt (s, e) = (s1, e1)"
    unfolding s1_def e1_def pd_def lt_def by (rule computeForces_hl_single [OF q ps clk])
  have f1: "particles s1 = [pd]" "width s1 = ?w" "height s1 = ?h" "params s1 = params s"
    "gravityOn s1 = False" "heatingOn s1 = False" "lastThermoMs s1 = lt"
    "grid s1 = rebuild_hl (grid s) [p]"
    using g by (simp_all add: s1_def)
  define x where "x = integrate_hl ?w ?h False dt pd"
  define t where "t = nowTape e (Suc (nowPos e))"
  define c where "c = classify_hl (params s) t x"
  define s2 where "s2 = s1\<lparr> particles := [c] \<rparr>"
  have w2: "wf_grid (grid s2)" "particles s2 = [c]"
    using wf_grid_rebuild_hl [OF g(3), of "[p]"] by (simp_all add: s2_def f1)
  define s3 where "s3 = resolveCollisions_hl s2"
  have r3: "s3 = s2\<lparr> grid := rebuild_hl (grid s2) [c] \<rparr>"
    unfolding s3_def by (rule resolveCollisions_hl_single [OF w2])
  have w3: "wf_grid (grid s3)" "particles s3 = [c]"
    using wf_grid_rebuild_hl [OF w2(1), of "[c]"] w2(2) by (simp_all add: r3)
  define s4 where "s4 = resolveCollisions_hl s3"
  have r4: "s4 = s3\<lparr> grid := rebuild_hl (grid s3) [c] \<rparr>"
    unfolding s4_def by (rule resolveCollisions_hl_single [OF w3])
  have fe1: "nowTape e1 = nowTape e" "nowPos e1 = Suc (nowPos e)"
    by (simp_all add: e1_def)
  have st: "step_hl dt (s, e) = (s4, e1\<lparr> nowPos := Suc (Suc (nowPos e)) \<rparr>)"
    unfolding step_hl_def cf
    by (simp add: Let_def f1 performanceNow_def fe1 s4_def s3_def s2_def c_def t_def x_def)
  have f4: "particles s4 = [c]" "wf_grid (grid s4)" "width s4 = ?w" "height s4 = ?h"
    "params s4 = params s" "gravityOn s4 = False" "heatingOn s4 = False" "lastThermoMs s4 = lt"
    using wf_grid_rebuild_hl [OF w3(1), of "[c]"] w3(2)
    by (simp_all add: r4 r3 s2_def f1)
  have "sig x = sig (coast_hl ?w ?h dt p)"
    unfolding x_def integrate_hl_def coast_hl_def Let_def
    by (simp, intro wrap_hl_sig_cong) (simp add: pd_def sig_def algebra_simps)
  then have sc: "sig c = sig (coast_hl ?w ?h dt p)" by (simp add: c_def classify_hl_sig)
  show "\<exists>p'. particles (fst (step_hl dt (s, e))) = [p'] \<and>
           sig p' = sig (coast_hl (width s) (height s) dt p)"
    using sc by (intro exI [of _ c]) (simp add: st f4)
  show "quiet (fst (step_hl dt (s, e)))" using g(4) by (simp add: st quiet_def f4)
  show "width (fst (step_hl dt (s, e))) = width s" by (simp add: st f4)
  show "height (fst (step_hl dt (s, e))) = height s" by (simp add: st f4)
  from clk obtain lo where
    a: "\<forall>k. lo \<le> nowTape e k \<and> nowTape e k \<le> lo + 500" and
    b: "lastThermoMs s = 0 \<or> (lo \<le> lastThermoMs s \<and> lastThermoMs s \<le> lo + 500)"
    unfolding steadyClock_def by blast
  have "lo \<le> lt \<and> lt \<le> lo + 500" using a b by (auto simp add: lt_def)
  then show "steadyClock (fst (step_hl dt (s, e))) (snd (step_hl dt (s, e)))"
    unfolding steadyClock_def using a
    by (intro exI [of _ lo]) (simp add: st f4 e1_def)
qed

lemma steps_hl_lone:
  assumes q: "quiet s" and ps: "particles s = [p]" and clk: "steadyClock s e"
  shows "\<exists>p'. particles (fst (steps_hl (replicate n dt) (s, e))) = [p'] \<and>
           sig p' = sig ((coast_hl (width s) (height s) dt ^^ n) p)"
proof -
  let ?x = "\<lambda>n. fold step_hl (replicate n dt) (s, e)"
  have "quiet (fst (?x n)) \<and> steadyClock (fst (?x n)) (snd (?x n)) \<and>
        width (fst (?x n)) = width s \<and> height (fst (?x n)) = height s \<and>
        (\<exists>p'. particles (fst (?x n)) = [p'] \<and>
              sig p' = sig ((coast_hl (width s) (height s) dt ^^ n) p))"
  proof (induction n)
    case 0
    show ?case using q ps clk by auto
  next
    case (Suc n)
    obtain sn en where x: "?x n = (sn, en)" by (cases "?x n")
    from Suc x obtain pn where
      i: "quiet sn" "steadyClock sn en" "width sn = width s" "height sn = height s"
        "particles sn = [pn]" "sig pn = sig ((coast_hl (width s) (height s) dt ^^ n) p)"
      by auto
    have nx: "?x (Suc n) = step_hl dt (sn, en)"
    proof -
      have "replicate (Suc n) dt = replicate n dt @ [dt]"
        by (simp add: replicate_append_same)
      then have "?x (Suc n) = fold step_hl (replicate n dt @ [dt]) (s, e)"
        by (simp only:)
      also have "\<dots> = step_hl dt (sn, en)"
        by (simp only: fold_append fold_Cons fold_Nil comp_apply id_apply x)
      finally show ?thesis .
    qed
    from step_hl_single(1) [OF i(1) i(5) i(2)] obtain p' where
      p': "particles (fst (step_hl dt (sn, en))) = [p']"
        "sig p' = sig (coast_hl (width sn) (height sn) dt pn)"
      by blast
    have "sig p' = sig ((coast_hl (width s) (height s) dt ^^ Suc n) p)"
      using p'(2) coast_hl_sig_cong [OF i(6)] by (simp add: i(3,4))
    then show ?case
      unfolding nx
      using step_hl_single(2-5) [OF i(1) i(5) i(2)] p'(1) i(3,4) by auto
  qed
  then show ?thesis by (auto simp add: steps_hl_def)
qed


lemma wrapped_range:
  fixes w X :: real
  assumes "0 < w"
  shows "0 \<le> X - w * of_int \<lfloor>X / w\<rfloor>" and "X - w * of_int \<lfloor>X / w\<rfloor> < w"
proof -
  have a: "of_int \<lfloor>X / w\<rfloor> \<le> X / w" and b: "X / w < of_int \<lfloor>X / w\<rfloor> + 1"
    by linarith+
  have "of_int \<lfloor>X / w\<rfloor> * w \<le> X"
    using a by (simp only: pos_le_divide_eq [OF assms])
  moreover have "X < (of_int \<lfloor>X / w\<rfloor> + 1) * w"
    using b by (simp only: pos_divide_less_eq [OF assms])
  ultimately show "0 \<le> X - w * of_int \<lfloor>X / w\<rfloor>" "X - w * of_int \<lfloor>X / w\<rfloor> < w"
    by (simp_all add: algebra_simps)
qed

lemma wrapped_unique:
  fixes w X r :: real and k :: int
  assumes "0 < w" and "0 \<le> r" and "r < w" and "r = X - w * of_int k"
  shows "r = X - w * of_int \<lfloor>X / w\<rfloor>"
proof -
  have "X = of_int k * w + r" using assms(4) by (simp add: algebra_simps)
  then have "X / w = of_int k + r / w" using assms(1) by (simp add: field_simps)
  moreover have "0 \<le> r / w" "r / w < 1" using assms(1-3) by simp_all
  ultimately have "\<lfloor>X / w\<rfloor> = k" by (intro floor_unique) simp_all
  then show ?thesis using assms(4) by simp
qed

lemma wrap_hl_step:
  assumes w: "0 < w" and y: "0 \<le> snd (pos p)" "snd (pos p) < h"
    and x: "0 \<le> fst (pos p)" "fst (pos p) < 2 * w"
  shows "wrap_hl w h p =
    p\<lparr> pos := (if fst (pos p) \<ge> w then fst (pos p) - w else fst (pos p), snd (pos p)) \<rparr>"
  using assms by (simp add: wrap_hl_def Let_def)

lemma coast_hl_glide:
  assumes m: "0 < mass p" and dt: "0 \<le> dt" and c: "0.3 * dt \<le> mass p"
    and v: "vel p = (vx, 0)" and vx: "0 \<le> vx" and x: "pos p = (x0, y0)"
    and ins: "0 \<le> x0" "x0 < w" "0 \<le> y0" "y0 < h" and sm: "vx * dt < w"
  shows "(coast_hl w h dt ^^ n) p =
           p\<lparr> vel := (vx * (1 - 0.3 * dt / mass p) ^ n, 0),
               pos := (x0 + vx * dt * geo (1 - 0.3 * dt / mass p) n
                         - w * of_int \<lfloor>(x0 + vx * dt * geo (1 - 0.3 * dt / mass p) n) / w\<rfloor>,
                       y0) \<rparr>"
proof (induction n)
  case 0
  have w: "0 < w" using ins(1,2) by simp
  have "x0 = x0 - w * of_int (0 :: int)" by simp
  then have "x0 = x0 - w * of_int \<lfloor>x0 / w\<rfloor>"
    by (rule wrapped_unique [OF w ins(1,2)])
  then show ?case using v x by simp
next
  case (Suc n)
  let ?q = "1 - 0.3 * dt / mass p"
  let ?X = "\<lambda>n. x0 + vx * dt * geo ?q n"
  let ?r = "\<lambda>n. ?X n - w * of_int \<lfloor>?X n / w\<rfloor>"
  have w: "0 < w" using ins(1,2) by simp
  have q: "0 \<le> ?q" "?q \<le> 1" using m dt c by (simp_all add: field_simps)
  have qn: "0 \<le> ?q ^ Suc n" "?q ^ Suc n \<le> 1"
    using q by (simp_all add: power_le_one mult_le_one)
  define d where "d = vx * ?q ^ Suc n * dt"
  have vd: "0 \<le> vx * dt" using vx dt by simp
  have "0 \<le> vx * dt * ?q ^ Suc n" using vd qn(1) by (rule mult_nonneg_nonneg)
  moreover have "vx * dt * ?q ^ Suc n \<le> vx * dt" using qn(2) vd by (rule mult_left_le)
  moreover have "d = vx * dt * ?q ^ Suc n" by (simp only: d_def mult.assoc mult.commute mult.left_commute)
  ultimately have d: "0 \<le> d" "d < w" using sm by simp_all
  have X: "?X (Suc n) = ?X n + d" by (simp add: d_def algebra_simps)
  have r: "0 \<le> ?r n" "?r n < w" using wrapped_range [OF w, of "?X n"] by simp_all
  let ?y = "p\<lparr> vel := (vx * ?q ^ Suc n, 0), pos := (?r n + d, y0) \<rparr>"
  have co: "coast_hl w h dt (p\<lparr> vel := (vx * ?q ^ n, 0), pos := (?r n, y0) \<rparr>) = wrap_hl w h ?y"
    by (simp add: coast_hl_def Let_def d_def algebra_simps)
  have wy: "wrap_hl w h ?y = ?y\<lparr> pos := (if ?r n + d \<ge> w then ?r n + d - w else ?r n + d, y0) \<rparr>"
    using wrap_hl_step [of w ?y h] w ins(3,4) r d by simp
  have "(if ?r n + d \<ge> w then ?r n + d - w else ?r n + d) = ?r (Suc n)"
  proof (cases "?r n + d \<ge> w")
    case True
    have "?r n + d - w = ?X (Suc n) - w * of_int (\<lfloor>?X n / w\<rfloor> + 1)"
      unfolding X by (simp add: algebra_simps)
    moreover have "0 \<le> ?r n + d - w" "?r n + d - w < w" using True r d by simp_all
    ultimately have "?r n + d - w = ?r (Suc n)"
      by (intro wrapped_unique [OF w, where k = "\<lfloor>?X n / w\<rfloor> + 1"])
    then show ?thesis using True by simp
  next
    case False
    have "?r n + d = ?X (Suc n) - w * of_int \<lfloor>?X n / w\<rfloor>"
      unfolding X by (simp add: algebra_simps)
    moreover have "0 \<le> ?r n + d" "?r n + d < w" using False r d by simp_all
    ultimately have "?r n + d = ?r (Suc n)"
      by (intro wrapped_unique [OF w, where k = "\<lfloor>?X n / w\<rfloor>"])
    then show ?thesis using False by simp
  qed
  then have "wrap_hl w h ?y = p\<lparr> vel := (vx * ?q ^ Suc n, 0), pos := (?r (Suc n), y0) \<rparr>"
    unfolding wy by simp
  then show ?case
    unfolding funpow.simps comp_def Suc.IH co by simp
qed

lemma steps_hl_lone_glide:
  assumes q: "quiet s" and ps: "particles s = [p]" and clk: "steadyClock s e"
    and m: "0 < mass p" and dt: "0 < dt" and c: "0.3 * dt \<le> mass p"
    and v: "vel p = (vx, 0)" and vx: "0 \<le> vx" and x: "pos p = (x0, y0)"
    and ins: "0 \<le> x0" "x0 < width s" "0 \<le> y0" "y0 < height s" and sm: "vx * dt < width s"
  shows "map pos (particles (fst (steps_hl (replicate n dt) (s, e)))) =
           [(x0 + vx * (mass p / 0.3) * (1 - 0.3 * dt / mass p) * (1 - (1 - 0.3 * dt / mass p) ^ n)
               - width s * of_int \<lfloor>(x0 + vx * (mass p / 0.3) * (1 - 0.3 * dt / mass p) *
                                       (1 - (1 - 0.3 * dt / mass p) ^ n)) / width s\<rfloor>, y0)] \<and>
         map vel (particles (fst (steps_hl (replicate n dt) (s, e)))) =
           [(vx * (1 - 0.3 * dt / mass p) ^ n, 0)]"
proof -
  let ?q = "1 - 0.3 * dt / mass p"
  from dt have dt0: "0 \<le> dt" by simp
  obtain p' where p': "particles (fst (steps_hl (replicate n dt) (s, e))) = [p']"
      "sig p' = sig ((coast_hl (width s) (height s) dt ^^ n) p)"
    using steps_hl_lone [OF q ps clk, of n dt] by blast
  have cg: "(coast_hl (width s) (height s) dt ^^ n) p =
      p\<lparr> vel := (vx * ?q ^ n, 0),
         pos := (x0 + vx * dt * geo ?q n
                   - width s * of_int \<lfloor>(x0 + vx * dt * geo ?q n) / width s\<rfloor>, y0) \<rparr>"
    by (rule coast_hl_glide [OF m dt0 c v vx x ins sm])
  have "(1 - ?q) * geo ?q n = ?q * (1 - ?q ^ n)" by (rule geo_closed)
  moreover have "1 - ?q = 0.3 * dt / mass p" by simp
  ultimately have "0.3 * dt / mass p * geo ?q n = ?q * (1 - ?q ^ n)" by simp
  then have "dt * geo ?q n = (mass p / 0.3) * (?q * (1 - ?q ^ n))"
    by (rule drag_scale [OF m])
  then have E: "vx * dt * geo ?q n = vx * (mass p / 0.3) * ?q * (1 - ?q ^ n)"
    by (simp only: mult.assoc)
  have cg2: "(coast_hl (width s) (height s) dt ^^ n) p =
      p\<lparr> vel := (vx * ?q ^ n, 0),
         pos := (x0 + vx * (mass p / 0.3) * ?q * (1 - ?q ^ n)
                   - width s * of_int \<lfloor>(x0 + vx * (mass p / 0.3) * ?q * (1 - ?q ^ n)) / width s\<rfloor>,
                 y0) \<rparr>"
    using cg unfolding E .
  have "pos p' = (x0 + vx * (mass p / 0.3) * ?q * (1 - ?q ^ n)
                   - width s * of_int \<lfloor>(x0 + vx * (mass p / 0.3) * ?q * (1 - ?q ^ n)) / width s\<rfloor>,
                 y0)" "vel p' = (vx * ?q ^ n, 0)"
    using sig_fields(1,2) [OF p'(2)] unfolding cg2 by simp_all
  then show ?thesis unfolding p'(1) by simp
qed

subsection \<open>A single particle: walls against wrap\<close>

lemma coast_y_inv:
  assumes "0 < radius p" and "snd (vel p) = 0"
    and "radius p \<le> snd (pos p)" and "snd (pos p) \<le> h - radius p"
  shows "snd (vel (coast w h dt p)) = 0" and "snd (pos (coast w h dt p)) = snd (pos p)"
  using assms by (simp_all add: coast_def handleWalls_def Let_def jsor_def)

lemma coast_x_range:
  assumes "0 < radius p" and "2 * radius p \<le> w" and "2 * radius p \<le> h"
  shows "radius p \<le> fst (pos (coast w h dt p))" and "fst (pos (coast w h dt p)) \<le> w - radius p"
proof -
  let ?y = "p\<lparr> vel := (fst (vel p) * (1 - 0.3 * dt / mass p), snd (vel p) * (1 - 0.3 * dt / mass p)),
      pos := (fst (pos p) + fst (vel p) * (1 - 0.3 * dt / mass p) * dt,
              snd (pos p) + snd (vel p) * (1 - 0.3 * dt / mass p) * dt) \<rparr>"
  have co: "coast w h dt p = handleWalls w h ?y" by (simp add: coast_def Let_def)
  show "radius p \<le> fst (pos (coast w h dt p))" "fst (pos (coast w h dt p)) \<le> w - radius p"
    unfolding co using handleWalls_inside_both [of ?y w h] assms by simp_all
qed

lemma coast_run_inv:
  assumes r: "0 < radius p" and v: "snd (vel p) = 0"
    and x: "radius p \<le> fst (pos p)" "fst (pos p) \<le> w - radius p"
    and y: "radius p \<le> snd (pos p)" "snd (pos p) \<le> h - radius p"
  shows "shape ((coast w h dt ^^ n) p) = shape p \<and>
         snd (vel ((coast w h dt ^^ n) p)) = 0 \<and>
         snd (pos ((coast w h dt ^^ n) p)) = snd (pos p) \<and>
         radius p \<le> fst (pos ((coast w h dt ^^ n) p)) \<and>
         fst (pos ((coast w h dt ^^ n) p)) \<le> w - radius p"
proof (induction n)
  case 0
  show ?case using v x by simp
next
  case (Suc n)
  let ?c = "(coast w h dt ^^ n) p"
  from Suc have i: "radius ?c = radius p" "snd (vel ?c) = 0" "snd (pos ?c) = snd (pos p)"
    by (simp_all add: shape_def)
  have w2: "2 * radius ?c \<le> w" "2 * radius ?c \<le> h" using x y by (simp_all add: i)
  have rc: "0 < radius ?c" using r by (simp add: i)
  have "snd (vel (coast w h dt ?c)) = 0" "snd (pos (coast w h dt ?c)) = snd (pos ?c)"
    using coast_y_inv [of ?c h w dt] r y by (simp_all add: i)
  moreover have "radius ?c \<le> fst (pos (coast w h dt ?c))"
    "fst (pos (coast w h dt ?c)) \<le> w - radius ?c"
    using coast_x_range [OF rc w2] by simp_all
  moreover have "shape (coast w h dt ?c) = shape p" using Suc by (simp add: coast_shape)
  ultimately show ?case by (simp add: i)
qed

lemma coast_reflect:
  assumes r: "0 < radius p" and v: "vel p = (vx, 0)" and x: "pos p = (x0, y0)"
    and ins: "radius p \<le> x0" "x0 \<le> w - radius p" "radius p \<le> y0" "y0 \<le> h - radius p"
    and hit: "w - radius p < x0 + vx * (1 - 0.3 * dt / mass p) * dt"
  shows "coast w h dt p =
           p\<lparr> pos := (w - radius p, y0), vel := (- (vx * (1 - 0.3 * dt / mass p)) * 0.2, 0) \<rparr>"
  using assms by (simp add: coast_def handleWalls_def Let_def jsor_def)

lemma step_lone:
  assumes q: "quiet s" and l: "lone s p" and clk: "steadyClock s e" and dt: "0 \<le> dt"
  shows "\<exists>p'. particles (fst (step dt (s, e))) = [p'] \<and>
           sig p' = sig (coast (width s) (height s) dt p)"
  using steps_lone [OF q l clk dt, of 1] by (simp add: steps_def)


lemma steps_lone_walls:
  assumes q: "quiet s" and l: "lone s p" and clk: "steadyClock s e"
    and dt: "0 \<le> dt" and c: "0.3 * dt \<le> mass p"
    and v: "vel p = (vx, 0)" and vx: "0 \<le> vx" and x: "pos p = (x0, y0)"
    and ins: "radius p \<le> x0" "x0 \<le> width s - radius p"
             "radius p \<le> y0" "y0 \<le> height s - radius p"
  shows "\<exists>p'. particles (fst (steps (replicate n dt) (s, e))) = [p'] \<and>
           sig p' = sig ((coast (width s) (height s) dt ^^ n) p) \<and>
           x0 - real n * (vx * dt) \<le> fst (pos p') \<and> fst (pos p') \<le> width s - radius p \<and>
           snd (pos p') = y0"
proof -
  from l have m: "0 < mass p" and r: "0 < radius p" by (simp_all add: lone_def)
  obtain p' where p': "particles (fst (steps (replicate n dt) (s, e))) = [p']"
      "sig p' = sig ((coast (width s) (height s) dt ^^ n) p)"
    using steps_lone [OF q l clk dt, of n] by blast
  let ?c = "(coast (width s) (height s) dt ^^ n) p"
  have "fst (pos p) - real n * (vx * dt) \<le> fst (pos ?c)"
    using v vx x ins by (intro coast_run_bounds [OF m r dt c]) simp_all
  moreover have "snd (pos ?c) = snd (pos p) \<and> fst (pos ?c) \<le> width s - radius p"
    using coast_run_inv [where p = p and w = "width s" and h = "height s" and dt = dt and n = n] r v x ins by simp
  ultimately have "x0 - real n * (vx * dt) \<le> fst (pos p') \<and>
      fst (pos p') \<le> width s - radius p \<and> snd (pos p') = y0"
    using sig_fields(1) [OF p'(2)] x by simp
  then show ?thesis using p' by blast
qed

lemma step_lone_reflect:
  assumes q: "quiet s" and l: "lone s p" and clk: "steadyClock s e" and dt: "0 \<le> dt"
    and v: "vel p = (vx, 0)" and x: "pos p = (x0, y0)"
    and ins: "radius p \<le> x0" "x0 \<le> width s - radius p"
             "radius p \<le> y0" "y0 \<le> height s - radius p"
    and hit: "width s - radius p < x0 + vx * (1 - 0.3 * dt / mass p) * dt"
  shows "map pos (particles (fst (step dt (s, e)))) = [(width s - radius p, y0)] \<and>
         map vel (particles (fst (step dt (s, e)))) = [(- (vx * (1 - 0.3 * dt / mass p)) * 0.2, 0)]"
proof -
  from l have r: "0 < radius p" by (simp add: lone_def)
  obtain p' where p': "particles (fst (step dt (s, e))) = [p']"
      "sig p' = sig (coast (width s) (height s) dt p)"
    using step_lone [OF q l clk dt] by blast
  have "coast (width s) (height s) dt p =
      p\<lparr> pos := (width s - radius p, y0), vel := (- (vx * (1 - 0.3 * dt / mass p)) * 0.2, 0) \<rparr>"
    by (rule coast_reflect [OF r v x ins hit])
  then have "pos p' = (width s - radius p, y0)"
    "vel p' = (- (vx * (1 - 0.3 * dt / mass p)) * 0.2, 0)"
    using sig_fields(1,2) [OF p'(2)] by simp_all
  then show ?thesis unfolding p'(1) by simp
qed

text \<open>
  Claim C8. With gravity and heating off and \<open>kT = 0\<close>, while the thermostat interval of 500
  ms has not elapsed on the clock, take a single particle in the domain with velocity
  \<open>(vx, 0)\<close>, \<open>0 \<le> vx\<close> and \<open>vx \<cdot> dt\<close> less than the width, and let \<open>q = 1 - 0.3 \<cdot> dt / mass\<close> be
  the drag factor of one step and \<open>D = vx \<cdot> (mass / 0.3) \<cdot> q \<cdot> (1 - q\<^sup>n)\<close>.

  In the version of the engine that wraps (highlow.js, gravity off), after \<open>n\<close> steps of
  \<open>dt\<close> the particle is at its initial position plus \<open>(D, 0)\<close> modulo the width, with
  velocity \<open>(vx \<cdot> q\<^sup>n, 0)\<close>.

  In the version of imfs.js, whose \<open>wrap\<close> is empty and whose step ends with \<open>handleWalls\<close>,
  for a particle of thermal energy at most 0.1 that starts inside the wall margins: each
  step scales the velocity by \<open>q\<close>, advances the position and applies \<open>handleWalls\<close>; after
  \<open>n\<close> steps the particle is no further left than \<open>x0 - n \<cdot> vx \<cdot> dt\<close>, no further right than
  \<open>width - radius\<close>, and at its initial height; if \<open>x0 + n \<cdot> vx \<cdot> dt\<close> does not pass
  \<open>width - radius\<close> it is at its initial position plus \<open>(D, 0)\<close> with velocity \<open>(vx \<cdot> q\<^sup>n, 0)\<close>;
  and a step that would carry it past \<open>width - radius\<close> leaves it at \<open>x = width - radius\<close>
  with velocity \<open>(-0.2 \<cdot> vx \<cdot> q, 0)\<close>.
\<close>

theorem lone_particle_glides_with_drag:
  assumes "quiet s" and "steadyClock s e" and "particles s = [p]" and "0 < mass p"
    and "0 < dt" and "0.3 * dt \<le> mass p"
    and "vel p = (vx, 0)" and "0 \<le> vx" and "vx * dt < width s" and "pos p = (x0, y0)"
    and "0 \<le> x0" and "x0 < width s" and "0 \<le> y0" and "y0 < height s"
  shows
   "(let q = 1 - 0.3 * dt / mass p;
         D = vx * (mass p / 0.3) * q * (1 - q ^ n);
         w = width s;
         h = height s;
         r = radius p
     in map pos (particles (fst (steps_hl (replicate n dt) (s, e)))) =
          [(x0 + D - w * of_int \<lfloor>(x0 + D) / w\<rfloor>, y0)] \<and>
        map vel (particles (fst (steps_hl (replicate n dt) (s, e)))) = [(vx * q ^ n, 0)] \<and>
        (lone s p \<and> r \<le> x0 \<and> x0 \<le> w - r \<and> r \<le> y0 \<and> y0 \<le> h - r \<longrightarrow>
           (\<exists>p'. particles (fst (steps (replicate n dt) (s, e))) = [p'] \<and>
                 sig p' = sig ((coast w h dt ^^ n) p) \<and>
                 x0 - real n * (vx * dt) \<le> fst (pos p') \<and> fst (pos p') \<le> w - r \<and>
                 snd (pos p') = y0) \<and>
           (x0 + vx * dt * real n \<le> w - r \<longrightarrow>
              map pos (particles (fst (steps (replicate n dt) (s, e)))) = [(x0 + D, y0)] \<and>
              map vel (particles (fst (steps (replicate n dt) (s, e)))) = [(vx * q ^ n, 0)]) \<and>
           (w - r < x0 + vx * q * dt \<longrightarrow>
              map pos (particles (fst (step dt (s, e)))) = [(w - r, y0)] \<and>
              map vel (particles (fst (step dt (s, e)))) = [(- (vx * q) * 0.2, 0)])))"
proof -
  from assms(5) have dt0: "0 \<le> dt" by simp
  note hl = steps_hl_lone_glide [OF assms(1,3,2,4,5,6,7,8,10,11,12,13,14,9), of n]
  have walls: "\<exists>p'. particles (fst (steps (replicate n dt) (s, e))) = [p'] \<and>
           sig p' = sig ((coast (width s) (height s) dt ^^ n) p) \<and>
           x0 - real n * (vx * dt) \<le> fst (pos p') \<and> fst (pos p') \<le> width s - radius p \<and>
           snd (pos p') = y0"
    if "lone s p" "radius p \<le> x0" "x0 \<le> width s - radius p"
       "radius p \<le> y0" "y0 \<le> height s - radius p"
    using that by (intro steps_lone_walls [OF assms(1) _ assms(2) dt0 assms(6,7,8,10)])
  have glide: "map pos (particles (fst (steps (replicate n dt) (s, e)))) =
           [(x0 + vx * (mass p / 0.3) * (1 - 0.3 * dt / mass p) *
                  (1 - (1 - 0.3 * dt / mass p) ^ n), y0)] \<and>
         map vel (particles (fst (steps (replicate n dt) (s, e)))) =
           [(vx * (1 - 0.3 * dt / mass p) ^ n, 0)]"
    if "lone s p" "radius p \<le> x0" "radius p \<le> y0" "y0 \<le> height s - radius p"
       "x0 + vx * dt * real n \<le> width s - radius p"
    using that by (intro steps_lone_glide [OF assms(1) _ assms(2,5,6,7,8,10)])
  have refl: "map pos (particles (fst (step dt (s, e)))) = [(width s - radius p, y0)] \<and>
         map vel (particles (fst (step dt (s, e)))) = [(- (vx * (1 - 0.3 * dt / mass p)) * 0.2, 0)]"
    if "lone s p" "radius p \<le> x0" "x0 \<le> width s - radius p"
       "radius p \<le> y0" "y0 \<le> height s - radius p"
       "width s - radius p < x0 + vx * (1 - 0.3 * dt / mass p) * dt"
    using that by (intro step_lone_reflect [OF assms(1) _ assms(2) dt0 assms(7,10)])
  show ?thesis
    unfolding Let_def using hl walls glide refl by blast
qed


theorem lone_particle_glides_with_drag_witness:
  "map pos (particles (fst (steps_hl (replicate 60 (1 / 60)) (simG, env0)))) =
     [(100 + 10 * (1 / 0.3) * (1 - 0.3 * (1 / 60) / 1) * (1 - (1 - 0.3 * (1 / 60) / 1) ^ 60)
         - 900 * of_int \<lfloor>(100 + 10 * (1 / 0.3) * (1 - 0.3 * (1 / 60) / 1) *
                                 (1 - (1 - 0.3 * (1 / 60) / 1) ^ 60)) / (900 :: real)\<rfloor>, 100)] \<and>
   map pos (particles (fst (steps (replicate 60 (1 / 60)) (simG, env0)))) =
     [(100 + 10 * (1 / 0.3) * (1 - 0.3 * (1 / 60) / 1) * (1 - (1 - 0.3 * (1 / 60) / 1) ^ 60), 100)] \<and>
   map vel (particles (fst (steps (replicate 60 (1 / 60)) (simG, env0)))) =
     [(10 * (1 - 0.3 * (1 / 60) / 1) ^ 60, 0)] \<and>
   map pos (particles (fst (step (1 / 60) (simE, env0)))) = [(897, 100)] \<and>
   map vel (particles (fst (step (1 / 60) (simE, env0)))) = [(- 1.99, 0)]"
proof -
  let ?p = "makeParticle 100 100 (10, 0)" and ?r = "makeParticle 897 100 (10, 0)"
  have c: "steadyClock simG env0" "steadyClock simE env0"
    by (rule steadyClock_env0, rule simG_fields)+
  have ps: "particles simG = [?p]" "particles simE = [?r]"
    by (simp_all add: simG_def simE_def sim0_def)
  have h: "0 < mass ?p" "(0 :: real) < 1 / 60" "0.3 * (1 / 60) \<le> mass ?p" "vel ?p = (10, 0)"
    "(0 :: real) \<le> 10" "10 * (1 / 60) < width simG" "pos ?p = (100, 100)"
    "(0 :: real) \<le> 100" "100 < width simG" "(0 :: real) \<le> 100" "100 < height simG"
    by (simp_all add: makeParticle_fields simG_fields)
  have k: "0 < mass ?r" "(0 :: real) < 1 / 60" "0.3 * (1 / 60) \<le> mass ?r" "vel ?r = (10, 0)"
    "(0 :: real) \<le> 10" "10 * (1 / 60) < width simE" "pos ?r = (897, 100)"
    "(0 :: real) \<le> 897" "897 < width simE" "(0 :: real) \<le> 100" "100 < height simE"
    by (simp_all add: makeParticle_fields simG_fields)
  note A = lone_particle_glides_with_drag [OF simG_quiet(1) c(1) ps(1) h, of 60, unfolded Let_def]
  note B = lone_particle_glides_with_drag [OF simG_quiet(2) c(2) ps(2) k, of 1, unfolded Let_def]
  have pa: "lone simG ?p \<and> radius ?p \<le> 100 \<and> 100 \<le> width simG - radius ?p \<and>
      radius ?p \<le> 100 \<and> 100 \<le> height simG - radius ?p"
    using simG_lone(1) by (simp add: makeParticle_fields simG_fields)
  have ga: "100 + 10 * (1 / 60) * real (60 :: nat) \<le> width simG - radius ?p"
    by (simp add: makeParticle_fields simG_fields)
  have pb: "lone simE ?r \<and> radius ?r \<le> 897 \<and> 897 \<le> width simE - radius ?r \<and>
      radius ?r \<le> 100 \<and> 100 \<le> height simE - radius ?r"
    using simG_lone(2) by (simp add: makeParticle_fields simG_fields)
  have hb: "width simE - radius ?r < 897 + 10 * (1 - 0.3 * (1 / 60) / mass ?r) * (1 / 60)"
    by (simp add: makeParticle_fields simG_fields)
  have A1: "map pos (particles (fst (steps_hl (replicate 60 (1 / 60)) (simG, env0)))) =
     [(100 + 10 * (1 / 0.3) * (1 - 0.3 * (1 / 60) / 1) * (1 - (1 - 0.3 * (1 / 60) / 1) ^ 60)
         - 900 * of_int \<lfloor>(100 + 10 * (1 / 0.3) * (1 - 0.3 * (1 / 60) / 1) *
                                 (1 - (1 - 0.3 * (1 / 60) / 1) ^ 60)) / (900 :: real)\<rfloor>, 100)]"
    using A [THEN conjunct1] by (simp only: makeParticle_fields simG_fields)
  have A2: "map pos (particles (fst (steps (replicate 60 (1 / 60)) (simG, env0)))) =
     [(100 + 10 * (1 / 0.3) * (1 - 0.3 * (1 / 60) / 1) * (1 - (1 - 0.3 * (1 / 60) / 1) ^ 60), 100)] \<and>
   map vel (particles (fst (steps (replicate 60 (1 / 60)) (simG, env0)))) =
     [(10 * (1 - 0.3 * (1 / 60) / 1) ^ 60, 0)]"
    using A [THEN conjunct2, THEN conjunct2, THEN mp, OF pa, THEN conjunct2, THEN conjunct1,
        THEN mp, OF ga]
    by (simp only: makeParticle_fields simG_fields)
  have B1: "map pos (particles (fst (step (1 / 60) (simE, env0)))) = [(897, 100)] \<and>
      map vel (particles (fst (step (1 / 60) (simE, env0)))) = [(- 1.99, 0)]"
    using B [THEN conjunct2, THEN conjunct2, THEN mp, OF pb, THEN conjunct2, THEN conjunct2,
        THEN mp, OF hb]
    by (simp add: makeParticle_fields simG_fields)
  from A1 A2 B1 show ?thesis by blast
qed

lemma drag_after_one_second_bounds:
  "(8.6 :: real) < 10 * (1 / 0.3) * (1 - 0.3 * (1 / 60) / 1) * (1 - (1 - 0.3 * (1 / 60) / 1) ^ 60) \<and>
   10 * (1 / 0.3) * (1 - 0.3 * (1 / 60) / 1) * (1 - (1 - 0.3 * (1 / 60) / 1) ^ 60) < (8.7 :: real)"
proof -
  have "(1 :: real) - 0.3 * (1 / 60) / 1 = 199 / 200" by simp
  moreover have "(0.7377 :: real) < (199 / 200) ^ 60" by (simp add: power_divide)
  moreover have "(199 / 200) ^ 60 < (0.7407 :: real)" by (simp add: power_divide)
  ultimately show ?thesis by simp
qed

text \<open>
  Claim C8 as the specification states it fails. In the version that wraps, with gravity
  and heating off, \<open>kT = 0\<close> and the viscosity and every cohesion coefficient 0, a particle
  started at \<open>x = 100\<close> with velocity \<open>(10, 0)\<close> is after 60 steps of \<open>1/60\<close> between
  \<open>x = 108.6\<close> and \<open>x = 108.7\<close>, not near 110, and one started at \<open>x = 897\<close> on the canvas
  of width 900 has wrapped to a position between \<open>x = 5.6\<close> and \<open>x = 5.7\<close>, not near 7: the
  drag has slowed it down. In the version of imfs.js the particle started at \<open>x = 897\<close>
  ends between \<open>x = 887\<close> and \<open>x = 897\<close>: it has not wrapped.
\<close>

theorem lone_particle_falls_short_and_bounces:
  "\<not> gravityOn simH \<and> \<not> heatingOn simH \<and> kT (params simH) = 0 \<and>
   viscosity (params simH) = 0 \<and> hbStrength (params simH) = 0 \<and> dipole (params simH) = 0 \<and>
   cohLJ (params simH) = Some 0 \<and> cohHB (params simH) = Some 0 \<and> cohDP (params simH) = Some 0 \<and>
   width simH = 900 \<and> params simHE = params simH \<and> params simE = params simH \<and>
   \<not> gravityOn simHE \<and> \<not> heatingOn simHE \<and> \<not> gravityOn simE \<and> \<not> heatingOn simE \<and>
   map pos (particles simH) = [(100, 100)] \<and> map vel (particles simH) = [(10, 0)] \<and>
   map pos (particles simHE) = [(897, 100)] \<and> map vel (particles simHE) = [(10, 0)] \<and>
   map pos (particles simE) = [(897, 100)] \<and> map vel (particles simE) = [(10, 0)] \<and>
   map pos (particles (fst (steps_hl (replicate 60 (1 / 60)) (simH, env0)))) =
     [(100 + 10 * (1 / 0.3) * (1 - 0.3 * (1 / 60) / 1) * (1 - (1 - 0.3 * (1 / 60) / 1) ^ 60), 100)] \<and>
   map pos (particles (fst (steps_hl (replicate 60 (1 / 60)) (simHE, env0)))) =
     [(10 * (1 / 0.3) * (1 - 0.3 * (1 / 60) / 1) * (1 - (1 - 0.3 * (1 / 60) / 1) ^ 60) - 3, 100)] \<and>
   (8.6 :: real) < 10 * (1 / 0.3) * (1 - 0.3 * (1 / 60) / 1) * (1 - (1 - 0.3 * (1 / 60) / 1) ^ 60) \<and>
   10 * (1 / 0.3) * (1 - 0.3 * (1 / 60) / 1) * (1 - (1 - 0.3 * (1 / 60) / 1) ^ 60) < (8.7 :: real) \<and>
   length (particles (fst (steps (replicate 60 (1 / 60)) (simE, env0)))) = 1 \<and>
   887 \<le> fst (pos (particles (fst (steps (replicate 60 (1 / 60)) (simE, env0))) ! 0)) \<and>
   fst (pos (particles (fst (steps (replicate 60 (1 / 60)) (simE, env0))) ! 0)) \<le> 897"
proof -
  let ?D = "10 * (1 / 0.3) * (1 - 0.3 * (1 / 60) / 1) * (1 - (1 - 0.3 * (1 / 60) / 1) ^ 60) :: real"
  let ?p = "makeParticle_hl 100 100 (10, 0)" and ?r = "makeParticle_hl 897 100 (10, 0)"
  have D: "8.6 < ?D" "?D < 8.7" using drag_after_one_second_bounds by simp_all
  have f: "width simH = 900" "height simH = 420" "lastThermoMs simH = 0"
    "width simHE = 900" "height simHE = 420" "lastThermoMs simHE = 0"
    "particles simH = [?p]" "particles simHE = [?r]"
    by (simp_all add: simH_def simHE_def simG_def sim0_def)
  have qh: "quiet simH" "quiet simHE"
    by (simp_all add: quiet_def simH_def simHE_def simG_def sim0_def wf_grid_NeighborGrid)
  have c: "steadyClock simH env0" "steadyClock simHE env0"
    by (rule steadyClock_env0, rule f)+
  have mp: "mass ?p = 1" "vel ?p = (10, 0)" "pos ?p = (100, 100)"
    "mass ?r = 1" "vel ?r = (10, 0)" "pos ?r = (897, 100)"
    by (simp_all add: makeParticle_hl_def)
  have h: "0 < mass ?p" "(0 :: real) < 1 / 60" "0.3 * (1 / 60) \<le> mass ?p" "vel ?p = (10, 0)"
    "(0 :: real) \<le> 10" "pos ?p = (100, 100)"
    "(0 :: real) \<le> 100" "100 < width simH" "(0 :: real) \<le> 100" "100 < height simH"
    "10 * (1 / 60) < width simH"
    by (simp_all add: mp f)
  have k: "0 < mass ?r" "(0 :: real) < 1 / 60" "0.3 * (1 / 60) \<le> mass ?r" "vel ?r = (10, 0)"
    "(0 :: real) \<le> 10" "pos ?r = (897, 100)"
    "(0 :: real) \<le> 897" "897 < width simHE" "(0 :: real) \<le> 100" "100 < height simHE"
    "10 * (1 / 60) < width simHE"
    by (simp_all add: mp f)
  have g1: "map pos (particles (fst (steps_hl (replicate 60 (1 / 60)) (simH, env0)))) =
      [(100 + ?D - 900 * of_int \<lfloor>(100 + ?D) / 900\<rfloor>, 100)]"
    using steps_hl_lone_glide [OF qh(1) f(7) c(1) h, of 60, THEN conjunct1]
    by (simp only: mp f)
  have "\<lfloor>(100 + ?D) / 900\<rfloor> = 0" using D by (intro floor_unique) simp_all
  then have e1: "100 + ?D - 900 * of_int \<lfloor>(100 + ?D) / 900\<rfloor> = 100 + ?D" by simp
  have first: "map pos (particles (fst (steps_hl (replicate 60 (1 / 60)) (simH, env0)))) =
      [(100 + ?D, 100)]"
    using g1 unfolding e1 .
  have g2: "map pos (particles (fst (steps_hl (replicate 60 (1 / 60)) (simHE, env0)))) =
      [(897 + ?D - 900 * of_int \<lfloor>(897 + ?D) / 900\<rfloor>, 100)]"
    using steps_hl_lone_glide [OF qh(2) f(8) c(2) k, of 60, THEN conjunct1]
    by (simp only: mp f)
  have "\<lfloor>(897 + ?D) / 900\<rfloor> = 1" using D by (intro floor_unique) simp_all
  then have e2: "897 + ?D - 900 * of_int \<lfloor>(897 + ?D) / 900\<rfloor> = ?D - 3" by simp
  have second: "map pos (particles (fst (steps_hl (replicate 60 (1 / 60)) (simHE, env0)))) =
      [(?D - 3, 100)]"
    using g2 unfolding e2 .
  let ?c = "makeParticle 897 100 (10, 0)"
  have ce: "steadyClock simE env0" by (rule steadyClock_env0) (rule simG_fields)
  have "\<exists>p'. particles (fst (steps (replicate 60 (1 / 60)) (simE, env0))) = [p'] \<and>
           sig p' = sig ((coast (width simE) (height simE) (1 / 60) ^^ 60) ?c) \<and>
           897 - real (60 :: nat) * (10 * (1 / 60)) \<le> fst (pos p') \<and>
           fst (pos p') \<le> width simE - radius ?c \<and> snd (pos p') = 100"
    by (rule steps_lone_walls [OF simG_quiet(2) simG_lone(2) ce])
       (simp_all add: makeParticle_fields simG_fields)
  then have third: "length (particles (fst (steps (replicate 60 (1 / 60)) (simE, env0)))) = 1 \<and>
      887 \<le> fst (pos (particles (fst (steps (replicate 60 (1 / 60)) (simE, env0))) ! 0)) \<and>
      fst (pos (particles (fst (steps (replicate 60 (1 / 60)) (simE, env0))) ! 0)) \<le> 897"
    by (auto simp add: makeParticle_fields simG_fields)
  have inputs: "\<not> gravityOn simH \<and> \<not> heatingOn simH \<and> kT (params simH) = 0 \<and>
   viscosity (params simH) = 0 \<and> hbStrength (params simH) = 0 \<and> dipole (params simH) = 0 \<and>
   cohLJ (params simH) = Some 0 \<and> cohHB (params simH) = Some 0 \<and> cohDP (params simH) = Some 0 \<and>
   width simH = 900 \<and> params simHE = params simH \<and> params simE = params simH \<and>
   \<not> gravityOn simHE \<and> \<not> heatingOn simHE \<and> \<not> gravityOn simE \<and> \<not> heatingOn simE \<and>
   map pos (particles simH) = [(100, 100)] \<and> map vel (particles simH) = [(10, 0)] \<and>
   map pos (particles simHE) = [(897, 100)] \<and> map vel (particles simHE) = [(10, 0)] \<and>
   map pos (particles simE) = [(897, 100)] \<and> map vel (particles simE) = [(10, 0)]"
    by (simp add: simH_def simHE_def simE_def simG_def sim0_def honey_def makeParticle_hl_def
        makeParticle_def)
  from inputs first second D third show ?thesis by (simp only: simp_thms)
qed

end
